theory Spec2Isabelle
  imports Main "HOL-Library.Word"
begin

unbundle bit_operations_syntax

section \<open>Data model of \<open>i2c.c\<close>\<close>

type_synonym u32 = "32 word"

text \<open>
  The two peripherals \<open>I2C0\<close> and \<open>I2C1\<close>. A value of this type is what a pointer
  \<open>I2C_TypeDef *\<close> denotes in the source, and also which of the two private live
  descriptors \<open>i2c0_sm\<close>, \<open>i2c1_sm\<close> a pointer handed to a handler denotes.
\<close>

datatype I2C_id = I2C0 | I2C1

text \<open>
  Modelled from the spec: the state enumeration of \<open>i2c.h\<close> (the header is not part of the
  sources at hand). The five states RequestResource, CommandTransmitted, DataRequested,
  DataReceiving and StopPending, under the names the \<open>switch\<close> statements of \<open>i2c.c\<close> use.
\<close>

datatype i2c_state = req_res | command_tx | data_req | data_rx | m_stop

text \<open>
  Modelled from the spec: the descriptor \<open>I2C_SM_STRUCT\<close> of \<open>i2c.h\<close>, with the fields
  \<open>i2c.c\<close> reads and writes. \<open>txdata\<close> and \<open>rxdata\<close> point at the transmit and receive
  register of a peripheral, \<open>data\<close> is the address of the caller's destination word,
  \<open>busy\<close> is a truth value (\<open>I2C_BUS_BUSY\<close> true, \<open>I2C_BUS_READY\<close> false).
\<close>

record I2C_SM_STRUCT =
  I2Cn :: I2C_id
  curr_state :: i2c_state
  busy :: bool
  slave_addr :: u32
  txdata :: I2C_id
  rxdata :: I2C_id
  data :: nat
  num_bytes :: u32
  i2c_cb :: u32

text \<open>
  The macros of \<open>i2c.h\<close> that \<open>i2c.c\<close> uses. Their values are not in the sources at hand,
  so every function takes them as a parameter of this type.
\<close>

record i2c_h =
  measure_RH_NHMM :: u32
  SI7021_I2C_READ :: u32
  SI7021_I2C_WRITE :: u32
  I2C_ADDR_RW_SHIFT :: u32
  MSBYTE_SHIFT :: u32
  I2C_IEN_MASK :: u32
  I2C_EM_BLOCK :: u32
  I2C_80MS_DELAY :: u32

text \<open>
  Constants of the vendor's device header (EFM32PG12B): command bits, interrupt flag bits,
  the mask of the clearable flags, the reset value of \<open>IEN\<close> (no interrupt enabled) and the
  bus state field. The source's \<open>_I2C_X\<close> is written \<open>raw_I2C_X\<close>.
\<close>

definition I2C_CMD_START :: u32 where "I2C_CMD_START = 0x01"
definition I2C_CMD_STOP :: u32 where "I2C_CMD_STOP = 0x02"
definition I2C_CMD_ACK :: u32 where "I2C_CMD_ACK = 0x04"
definition I2C_CMD_NACK :: u32 where "I2C_CMD_NACK = 0x08"
definition I2C_CMD_CONT :: u32 where "I2C_CMD_CONT = 0x10"
definition I2C_CMD_ABORT :: u32 where "I2C_CMD_ABORT = 0x20"
definition I2C_CMD_CLEARTX :: u32 where "I2C_CMD_CLEARTX = 0x40"

definition I2C_IF_RXDATAV :: u32 where "I2C_IF_RXDATAV = 0x20"
definition I2C_IF_ACK :: u32 where "I2C_IF_ACK = 0x40"
definition I2C_IF_NACK :: u32 where "I2C_IF_NACK = 0x80"
definition I2C_IF_MSTOP :: u32 where "I2C_IF_MSTOP = 0x100"
definition I2C_IFC_MSTOP :: u32 where "I2C_IFC_MSTOP = 0x100"
definition raw_I2C_IFC_MASK :: u32 where "raw_I2C_IFC_MASK = 0x7FFCF"
definition raw_I2C_IEN_RESETVALUE :: u32 where "raw_I2C_IEN_RESETVALUE = 0"
definition raw_I2C_STATE_STATE_MASK :: u32 where "raw_I2C_STATE_STATE_MASK = 0xE0"
definition I2C_STATE_STATE_IDLE :: u32 where "I2C_STATE_STATE_IDLE = 0"

text \<open>
  The registers of one peripheral, as the processor sees them. \<open>IEN\<close> holds what was last
  written to it. \<open>IF\<close> and \<open>RXDATA\<close> are set by the hardware: the \<open>n\<close>-th read of \<open>IF\<close>
  returns \<open>IF_reads n\<close>, and \<open>IF_count\<close> reads have happened so far; likewise for
  \<open>RXDATA\<close>. \<open>STATE\<close> and \<open>IFC_read\<close> are what a read of \<open>STATE\<close> and of the write-only
  \<open>IFC\<close> returns. Nothing is assumed about how the hardware answers a write.
\<close>

record I2C_TypeDef =
  IEN :: u32
  IF_reads :: "nat \<Rightarrow> u32"
  IF_count :: nat
  RXDATA_reads :: "nat \<Rightarrow> u32"
  RXDATA_count :: nat
  STATE :: u32
  IFC_read :: u32

text \<open>
  Everything the code does to the outside, in the order it does it: register writes and
  calls of the sleep governor, the scheduler, the delay timer and the interrupt
  controller.
\<close>

datatype action =
    Write_CMD I2C_id u32
  | Write_IEN I2C_id u32
  | Write_IFC I2C_id u32
  | Write_TXDATA I2C_id u32
  | Sleep_block_mode u32
  | Sleep_unblock_mode u32
  | Add_scheduled_event u32
  | Timer_delay u32
  | NVIC_EnableIRQ I2C_id

text \<open>
  The state of the system: the two private descriptors, the two peripherals, the memory
  that \<open>data\<close> pointers point into, the processor's interrupt mask (\<open>primask\<close>, true while
  a critical section suppresses interrupts), the interrupt lines enabled at the
  controller, and the trace of actions.
\<close>

record sys =
  i2c0_sm :: I2C_SM_STRUCT
  i2c1_sm :: I2C_SM_STRUCT
  periph :: "I2C_id \<Rightarrow> I2C_TypeDef"
  mem :: "nat \<Rightarrow> u32"
  primask :: bool
  nvic :: "I2C_id \<Rightarrow> bool"
  trace :: "action list"

text \<open>
  A run ends in a state, in a fatal fault, or not at all (\<open>None\<close>). \<open>EFM_ASSERT\<close> on a
  false condition halts the processor; a left shift of a 32-bit value by 32 or more is
  undefined in C.
\<close>

datatype fault = AssertFailed | UndefinedShift

type_synonym 'a res = "(fault + 'a) option"

definition andThen :: "'a res \<Rightarrow> ('a \<Rightarrow> 'b res) \<Rightarrow> 'b res" where
  "andThen m f = Option.bind m (\<lambda>r. case r of Inl e \<Rightarrow> Some (Inl e) | Inr x \<Rightarrow> f x)"

definition get_sm :: "I2C_id \<Rightarrow> sys \<Rightarrow> I2C_SM_STRUCT" where
  "get_sm p s = (case p of I2C0 \<Rightarrow> i2c0_sm s | I2C1 \<Rightarrow> i2c1_sm s)"

definition put_sm :: "I2C_id \<Rightarrow> I2C_SM_STRUCT \<Rightarrow> sys \<Rightarrow> sys" where
  "put_sm p d s = (case p of I2C0 \<Rightarrow> s\<lparr>i2c0_sm := d\<rparr> | I2C1 \<Rightarrow> s\<lparr>i2c1_sm := d\<rparr>)"

definition emit :: "action \<Rightarrow> sys \<Rightarrow> sys" where
  "emit a s = s\<lparr>trace := trace s @ [a]\<rparr>"

definition write_CMD :: "I2C_id \<Rightarrow> u32 \<Rightarrow> sys \<Rightarrow> sys" where
  "write_CMD i2c v s = emit (Write_CMD i2c v) s"

definition write_IFC :: "I2C_id \<Rightarrow> u32 \<Rightarrow> sys \<Rightarrow> sys" where
  "write_IFC i2c v s = emit (Write_IFC i2c v) s"

definition write_TXDATA :: "I2C_id \<Rightarrow> u32 \<Rightarrow> sys \<Rightarrow> sys" where
  "write_TXDATA i2c v s = emit (Write_TXDATA i2c v) s"

definition write_IEN :: "I2C_id \<Rightarrow> u32 \<Rightarrow> sys \<Rightarrow> sys" where
  "write_IEN i2c v s =
     emit (Write_IEN i2c v) (s\<lparr>periph := (periph s)(i2c := (periph s i2c)\<lparr>IEN := v\<rparr>)\<rparr>)"

definition peek_IF :: "I2C_id \<Rightarrow> sys \<Rightarrow> u32" where
  "peek_IF i2c s = IF_reads (periph s i2c) (IF_count (periph s i2c))"

definition next_IF :: "I2C_id \<Rightarrow> sys \<Rightarrow> sys" where
  "next_IF i2c s =
     s\<lparr>periph := (periph s)(i2c := (periph s i2c)\<lparr>IF_count := Suc (IF_count (periph s i2c))\<rparr>)\<rparr>"

definition peek_RXDATA :: "I2C_id \<Rightarrow> sys \<Rightarrow> u32" where
  "peek_RXDATA i2c s = RXDATA_reads (periph s i2c) (RXDATA_count (periph s i2c))"

definition next_RXDATA :: "I2C_id \<Rightarrow> sys \<Rightarrow> sys" where
  "next_RXDATA i2c s =
     s\<lparr>periph := (periph s)(i2c :=
          (periph s i2c)\<lparr>RXDATA_count := Suc (RXDATA_count (periph s i2c))\<rparr>)\<rparr>"

text \<open>
  Modelled from the spec: the delay timer, the sleep governor and the scheduler are
  collaborators whose sources are not at hand. A call of \<open>timer_delay\<close>,
  \<open>sleep_block_mode\<close>, \<open>sleep_unblock_mode\<close> or \<open>add_scheduled_event\<close> is recorded
  in the trace with its argument and changes nothing else.
\<close>

definition timer_delay :: "u32 \<Rightarrow> sys \<Rightarrow> sys" where
  "timer_delay d s = emit (Timer_delay d) s"

definition sleep_unblock_mode :: "u32 \<Rightarrow> sys \<Rightarrow> sys" where
  "sleep_unblock_mode em s = emit (Sleep_unblock_mode em) s"

definition sleep_block_mode :: "u32 \<Rightarrow> sys \<Rightarrow> sys" where
  "sleep_block_mode em s = emit (Sleep_block_mode em) s"

definition add_scheduled_event :: "u32 \<Rightarrow> sys \<Rightarrow> sys" where
  "add_scheduled_event cb s = emit (Add_scheduled_event cb) s"

text \<open>\<open>x << n\<close> on 32-bit unsigned operands.\<close>

definition shl32 :: "u32 \<Rightarrow> u32 \<Rightarrow> fault + u32" where
  "shl32 x n = (if unat n < 32 then Inr (push_bit (unat n) x) else Inl UndefinedShift)"

section \<open>Bus reset\<close>

text \<open>
  \<open>i2c_open\<close> enables the clock, calls the vendor's initialisation, routes the pins and
  ends with the bus reset; only the bus reset is modelled.
\<close>

text \<open>
  \<open>while(!(i2c->IF & I2C_IF_MSTOP));\<close> reads \<open>IF\<close> until the stop flag shows. It does
  not return when the hardware never raises the flag.
\<close>

partial_function (option) wait_mstop :: "I2C_id \<Rightarrow> sys \<Rightarrow> sys option" where
  "wait_mstop i2c s =
     (if peek_IF i2c s AND I2C_IF_MSTOP \<noteq> 0 then Some (next_IF i2c s)
      else wait_mstop i2c (next_IF i2c s))"

definition i2c_bus_reset :: "I2C_id \<Rightarrow> sys \<Rightarrow> sys res" where
  "i2c_bus_reset i2c s0 =
     (let s1 = write_CMD i2c I2C_CMD_ABORT s0;
          ien_state = IEN (periph s1 i2c);
          s2 = write_IEN i2c raw_I2C_IEN_RESETVALUE s1;
          s3 = write_IFC i2c raw_I2C_IFC_MASK s2;
          if_val = peek_IF i2c s3;
          s4 = next_IF i2c s3
      in if if_val AND raw_I2C_IEN_RESETVALUE \<noteq> 0 then Some (Inl AssertFailed)
         else
           let s5 = write_CMD i2c I2C_CMD_CLEARTX s4;
               s6 = write_IFC i2c (IFC_read (periph s5 i2c) OR I2C_IFC_MSTOP) s5;
               s7 = write_CMD i2c (I2C_CMD_START OR I2C_CMD_STOP) s6
           in case wait_mstop i2c s7 of
                None \<Rightarrow> None
              | Some s8 \<Rightarrow>
                  let s9 = write_IFC i2c raw_I2C_IFC_MASK s8;
                      s10 = write_CMD i2c I2C_CMD_ABORT s9;
                      s11 = write_IEN i2c ien_state s10
                  in Some (Inr s11))"

section \<open>Critical sections\<close>

text \<open>
  \<open>CORE_ENTER_CRITICAL\<close> saves the interrupt mask and suppresses interrupts;
  \<open>CORE_EXIT_CRITICAL\<close> enables them again when they were enabled at entry.
\<close>

definition CORE_ENTER_CRITICAL :: "sys \<Rightarrow> bool \<times> sys" where
  "CORE_ENTER_CRITICAL s = (primask s, s\<lparr>primask := True\<rparr>)"

definition CORE_EXIT_CRITICAL :: "bool \<Rightarrow> sys \<Rightarrow> sys" where
  "CORE_EXIT_CRITICAL irqState s = (if irqState then s else s\<lparr>primask := False\<rparr>)"

text \<open>The common tail of the four handlers: the settle delay, then the end of the critical section.\<close>

definition handler_exit :: "i2c_h \<Rightarrow> bool \<Rightarrow> sys \<Rightarrow> sys res" where
  "handler_exit h irqState s =
     Some (Inr (CORE_EXIT_CRITICAL irqState (timer_delay (I2C_80MS_DELAY h) s)))"

section \<open>The four handlers of the state machine\<close>

definition i2cn_ack_sm :: "i2c_h \<Rightarrow> I2C_id \<Rightarrow> sys \<Rightarrow> sys res" where
  "i2cn_ack_sm h i2c_sm s0 =
     (let (irqState, s1) = CORE_ENTER_CRITICAL s0;
          d = get_sm i2c_sm s1
      in andThen
           (case curr_state d of
              req_res \<Rightarrow>
                let s2 = write_TXDATA (txdata d) (measure_RH_NHMM h) s1
                in Some (Inr (put_sm i2c_sm (d\<lparr>curr_state := command_tx\<rparr>) s2))
            | command_tx \<Rightarrow>
                let s2 = write_CMD (I2Cn d) I2C_CMD_START s1
                in (case shl32 (slave_addr d) (I2C_ADDR_RW_SHIFT h) of
                      Inl e \<Rightarrow> Some (Inl e)
                    | Inr a \<Rightarrow>
                        let s3 = write_TXDATA (txdata d) (a OR SI7021_I2C_READ h) s2
                        in Some (Inr (put_sm i2c_sm (d\<lparr>curr_state := data_req\<rparr>) s3)))
            | data_req \<Rightarrow> Some (Inr (put_sm i2c_sm (d\<lparr>curr_state := data_rx\<rparr>) s1))
            | data_rx \<Rightarrow> Some (Inl AssertFailed)
            | m_stop \<Rightarrow> Some (Inl AssertFailed))
           (handler_exit h irqState))"

definition i2cn_nack_sm :: "i2c_h \<Rightarrow> I2C_id \<Rightarrow> sys \<Rightarrow> sys res" where
  "i2cn_nack_sm h i2c_sm s0 =
     (let (irqState, s1) = CORE_ENTER_CRITICAL s0;
          d = get_sm i2c_sm s1
      in andThen
           (case curr_state d of
              req_res \<Rightarrow>
                let s2 = write_CMD (I2Cn d) I2C_CMD_START s1
                in Some (Inr (write_TXDATA (txdata d) (slave_addr d OR SI7021_I2C_WRITE h) s2))
            | command_tx \<Rightarrow>
                let s2 = write_CMD (I2Cn d) I2C_CMD_CONT s1
                in Some (Inr (write_TXDATA (txdata d) (measure_RH_NHMM h) s2))
            | data_req \<Rightarrow>
                let s2 = write_CMD (I2Cn d) I2C_CMD_START s1
                in Some (Inr (write_TXDATA (txdata d) (slave_addr d OR SI7021_I2C_READ h) s2))
            | data_rx \<Rightarrow> Some (Inl AssertFailed)
            | m_stop \<Rightarrow> Some (Inl AssertFailed))
           (handler_exit h irqState))"

definition i2cn_rxdata_sm :: "i2c_h \<Rightarrow> I2C_id \<Rightarrow> sys \<Rightarrow> sys res" where
  "i2cn_rxdata_sm h i2c_sm s0 =
     (let (irqState, s1) = CORE_ENTER_CRITICAL s0;
          d = get_sm i2c_sm s1
      in andThen
           (case curr_state d of
              data_rx \<Rightarrow>
                let d1 = d\<lparr>num_bytes := num_bytes d - 1\<rparr>;
                    s2 = put_sm i2c_sm d1 s1;
                    rx = peek_RXDATA (rxdata d1) s2;
                    s3 = next_RXDATA (rxdata d1) s2
                in (case shl32 rx (MSBYTE_SHIFT h * num_bytes d1) of
                      Inl e \<Rightarrow> Some (Inl e)
                    | Inr v \<Rightarrow>
                        let s4 = s3\<lparr>mem := (mem s3)(data d1 := mem s3 (data d1) OR v)\<rparr>
                        in if num_bytes d1 > 0
                           then Some (Inr (write_CMD (I2Cn d1) I2C_CMD_ACK s4))
                           else
                             let s5 = write_CMD (I2Cn d1) I2C_CMD_NACK s4;
                                 s6 = put_sm i2c_sm (d1\<lparr>curr_state := m_stop\<rparr>) s5
                             in Some (Inr (write_CMD (I2Cn d1) I2C_CMD_STOP s6)))
            | _ \<Rightarrow> Some (Inr s1))
           (handler_exit h irqState))"

definition i2cn_mstop_sm :: "i2c_h \<Rightarrow> I2C_id \<Rightarrow> sys \<Rightarrow> sys res" where
  "i2cn_mstop_sm h i2c_sm s0 =
     (let (irqState, s1) = CORE_ENTER_CRITICAL s0;
          d = get_sm i2c_sm s1
      in andThen
           (case curr_state d of
              m_stop \<Rightarrow>
                let d1 = d\<lparr>busy := False\<rparr>;
                    s2 = put_sm i2c_sm d1 s1;
                    s3 = sleep_unblock_mode (I2C_EM_BLOCK h) s2;
                    s4 = add_scheduled_event (i2c_cb d1) s3
                in i2c_bus_reset (I2Cn d1) s4
            | _ \<Rightarrow> Some (Inl AssertFailed))
           (handler_exit h irqState))"

section \<open>The interrupt vectors\<close>

text \<open>
  \<open>I2C0_IRQHandler\<close> and \<open>I2C1_IRQHandler\<close> are the same code on \<open>I2C0\<close>, \<open>i2c0_sm\<close> and on
  \<open>I2C1\<close>, \<open>i2c1_sm\<close>.
\<close>

definition I2Cn_IRQHandler :: "i2c_h \<Rightarrow> I2C_id \<Rightarrow> sys \<Rightarrow> sys res" where
  "I2Cn_IRQHandler h n s0 =
     (let intflags = peek_IF n s0 AND IEN (periph s0 n);
          s1 = next_IF n s0;
          s2 = write_IFC n intflags s1
      in andThen (if intflags AND I2C_IF_ACK \<noteq> 0 then i2cn_ack_sm h n s2 else Some (Inr s2))
        (\<lambda>s3. andThen (if intflags AND I2C_IF_NACK \<noteq> 0 then i2cn_nack_sm h n s3 else Some (Inr s3))
        (\<lambda>s4. andThen (if intflags AND I2C_IF_RXDATAV \<noteq> 0 then i2cn_rxdata_sm h n s4 else Some (Inr s4))
        (\<lambda>s5. if intflags AND I2C_IF_MSTOP \<noteq> 0 then i2cn_mstop_sm h n s5 else Some (Inr s5)))))"

definition I2C0_IRQHandler :: "i2c_h \<Rightarrow> sys \<Rightarrow> sys res" where
  "I2C0_IRQHandler h s = I2Cn_IRQHandler h I2C0 s"

definition I2C1_IRQHandler :: "i2c_h \<Rightarrow> sys \<Rightarrow> sys res" where
  "I2C1_IRQHandler h s = I2Cn_IRQHandler h I2C1 s"

section \<open>Starting a transaction\<close>

text \<open>
  What happens between two evaluations of the condition of an empty loop: with interrupts
  suppressed, nothing; otherwise the vector of every enabled line whose peripheral shows
  an enabled flag runs.
\<close>

definition irq_pending :: "I2C_id \<Rightarrow> sys \<Rightarrow> bool" where
  "irq_pending n s = (nvic s n \<and> peek_IF n s AND IEN (periph s n) \<noteq> 0)"

definition take_interrupts :: "i2c_h \<Rightarrow> sys \<Rightarrow> sys res" where
  "take_interrupts h s =
     (if primask s then Some (Inr s)
      else andThen (if irq_pending I2C0 s then I2C0_IRQHandler h s else Some (Inr s))
             (\<lambda>s'. if irq_pending I2C1 s' then I2C1_IRQHandler h s' else Some (Inr s')))"

text \<open>\<open>while(i2c0_sm.busy);\<close> and \<open>while(i2c1_sm.busy);\<close>\<close>

partial_function (option) busy_wait :: "i2c_h \<Rightarrow> I2C_id \<Rightarrow> sys \<Rightarrow> sys res" where
  "busy_wait h n s =
     (if busy (get_sm n s)
      then (case take_interrupts h s of
              None \<Rightarrow> None
            | Some (Inl e) \<Rightarrow> Some (Inl e)
            | Some (Inr s') \<Rightarrow> busy_wait h n s')
      else Some (Inr s))"

text \<open>
  The body of \<open>if(i2c_sm->I2Cn == I2C0) { ... }\<close> and of its twin for \<open>I2C1\<close>: wait for
  the live descriptor, check that the peripheral is idle, copy the caller's descriptor
  into the live one, enable the interrupt line.
\<close>

definition init_branch :: "i2c_h \<Rightarrow> I2C_id \<Rightarrow> I2C_SM_STRUCT \<Rightarrow> sys \<Rightarrow> sys res" where
  "init_branch h n d s =
     andThen (busy_wait h n s)
       (\<lambda>s1. if STATE (periph s1 n) AND raw_I2C_STATE_STATE_MASK \<noteq> I2C_STATE_STATE_IDLE
             then Some (Inl AssertFailed)
             else
               let s2 = put_sm n d s1
               in Some (Inr (emit (NVIC_EnableIRQ n) (s2\<lparr>nvic := (nvic s2)(n := True)\<rparr>))))"

text \<open>
  The caller's descriptor cannot be one of the two private ones (they are \<open>static\<close> in
  \<open>i2c.c\<close>), so it is passed by value and returned as the call leaves it.
\<close>

definition i2c_init_sm :: "i2c_h \<Rightarrow> I2C_SM_STRUCT \<Rightarrow> sys \<Rightarrow> (I2C_SM_STRUCT \<times> sys) res" where
  "i2c_init_sm h i2c_sm s0 =
     (let s1 = sleep_block_mode (I2C_EM_BLOCK h) s0;
          (irqState, s2) = CORE_ENTER_CRITICAL s1;
          d = i2c_sm\<lparr>busy := True\<rparr>;
          s3 = write_IEN (I2Cn d) (I2C_IEN_MASK h) s2
      in andThen (if I2Cn d = I2C0 then init_branch h I2C0 d s3 else Some (Inr s3))
        (\<lambda>s4. andThen (if I2Cn d = I2C1 then init_branch h I2C1 d s4 else Some (Inr s4))
        (\<lambda>s5. Some (Inr (d, CORE_EXIT_CRITICAL irqState (timer_delay (I2C_80MS_DELAY h) s5))))))"

subsection \<open>The call observed while it runs\<close>

text \<open>
  A call that never returns has no final state, so what it has done so far is read off a
  bounded run: \<open>Waiting s\<close> is a call that is still in its wait loop after the given
  number of passes, \<open>s\<close> being the state in which the loop last read the flag (an
  interrupt handler that never returns leaves the call there for ever); \<open>Ended r\<close> is a
  call that has left the loop and ended with \<open>r\<close>. The three functions below are the wait
  loop, the branch and \<open>i2c_init_sm\<close> again, line for line, with the loop cut off after
  \<open>j\<close> passes.
\<close>

datatype 'a progress = Waiting sys | Ended "fault + 'a"

definition thenP :: "'a progress \<Rightarrow> ('a \<Rightarrow> 'b progress) \<Rightarrow> 'b progress" where
  "thenP m f =
     (case m of Waiting s \<Rightarrow> Waiting s | Ended (Inl e) \<Rightarrow> Ended (Inl e) | Ended (Inr x) \<Rightarrow> f x)"

fun busy_wait_upto :: "nat \<Rightarrow> i2c_h \<Rightarrow> I2C_id \<Rightarrow> sys \<Rightarrow> sys progress" where
  "busy_wait_upto 0 h n s = (if busy (get_sm n s) then Waiting s else Ended (Inr s))"
| "busy_wait_upto (Suc j) h n s =
     (if busy (get_sm n s)
      then (case take_interrupts h s of
              None \<Rightarrow> Waiting s
            | Some (Inl e) \<Rightarrow> Ended (Inl e)
            | Some (Inr s') \<Rightarrow> busy_wait_upto j h n s')
      else Ended (Inr s))"

definition init_branch_upto ::
  "nat \<Rightarrow> i2c_h \<Rightarrow> I2C_id \<Rightarrow> I2C_SM_STRUCT \<Rightarrow> sys \<Rightarrow> sys progress" where
  "init_branch_upto j h n d s =
     thenP (busy_wait_upto j h n s)
       (\<lambda>s1. if STATE (periph s1 n) AND raw_I2C_STATE_STATE_MASK \<noteq> I2C_STATE_STATE_IDLE
             then Ended (Inl AssertFailed)
             else
               let s2 = put_sm n d s1
               in Ended (Inr (emit (NVIC_EnableIRQ n) (s2\<lparr>nvic := (nvic s2)(n := True)\<rparr>))))"

definition i2c_init_sm_upto ::
  "nat \<Rightarrow> i2c_h \<Rightarrow> I2C_SM_STRUCT \<Rightarrow> sys \<Rightarrow> (I2C_SM_STRUCT \<times> sys) progress" where
  "i2c_init_sm_upto j h i2c_sm s0 =
     (let s1 = sleep_block_mode (I2C_EM_BLOCK h) s0;
          (irqState, s2) = CORE_ENTER_CRITICAL s1;
          d = i2c_sm\<lparr>busy := True\<rparr>;
          s3 = write_IEN (I2Cn d) (I2C_IEN_MASK h) s2
      in thenP (if I2Cn d = I2C0 then init_branch_upto j h I2C0 d s3 else Ended (Inr s3))
        (\<lambda>s4. thenP (if I2Cn d = I2C1 then init_branch_upto j h I2C1 d s4 else Ended (Inr s4))
        (\<lambda>s5. Ended (Inr (d, CORE_EXIT_CRITICAL irqState (timer_delay (I2C_80MS_DELAY h) s5))))))"

definition i2c_tx_start :: "I2C_SM_STRUCT \<Rightarrow> u32 \<Rightarrow> sys \<Rightarrow> sys" where
  "i2c_tx_start i2c_sm rw s =
     (let s1 = write_CMD (I2Cn i2c_sm) I2C_CMD_START s;
          r_w_header = push_bit 1 (slave_addr i2c_sm) OR rw
      in write_TXDATA (txdata i2c_sm) r_w_header s1)"

definition i2c_tx_stop :: "I2C_SM_STRUCT \<Rightarrow> sys \<Rightarrow> sys" where
  "i2c_tx_stop i2c_sm s = write_CMD (I2Cn i2c_sm) I2C_CMD_STOP s"

definition i2c_tx_cmd :: "I2C_SM_STRUCT \<Rightarrow> u32 \<Rightarrow> sys \<Rightarrow> sys" where
  "i2c_tx_cmd i2c_sm tx_cmd s = write_TXDATA (txdata i2c_sm) tx_cmd s"

section \<open>Runs of events and expected results\<close>

text \<open>\<open>run_n j f\<close> is \<open>j\<close> runs of \<open>f\<close> in a row, stopping at the first fault.\<close>

fun run_n :: "nat \<Rightarrow> (sys \<Rightarrow> sys res) \<Rightarrow> sys \<Rightarrow> sys res" where
  "run_n 0 f s = Some (Inr s)"
| "run_n (Suc j) f s = andThen (f s) (run_n j f)"

text \<open>
  The payload that a list of received bytes denotes, most significant byte first, and the
  next \<open>j\<close> bytes a peripheral's receive register will deliver.
\<close>

definition assemble :: "u32 list \<Rightarrow> u32" where
  "assemble bs = foldl (\<lambda>acc b. push_bit 8 acc OR b) 0 bs"

definition rx_bytes :: "I2C_id \<Rightarrow> nat \<Rightarrow> sys \<Rightarrow> u32 list" where
  "rx_bytes i2c j s =
     map (\<lambda>i. RXDATA_reads (periph s i2c) (RXDATA_count (periph s i2c) + i)) [0..<j]"

text \<open>
  Where the table puts received bytes when \<open>k\<close> bytes are still expected: the first
  at bit \<open>(k - 1) * 8\<close>, the next one byte lower, and so on.
\<close>

fun placed :: "nat \<Rightarrow> u32 list \<Rightarrow> u32" where
  "placed k [] = 0"
| "placed k (b # bs) = push_bit ((k - 1) * 8) b OR placed (k - 1) bs"

text \<open>
  The actions the transition table asks of \<open>j\<close> byte-received events when \<open>k\<close> bytes are
  still expected: an ACK command while more bytes are expected after this one, NACK then
  STOP for the last one, nothing afterwards; each event ends with the settle delay.
\<close>

fun rx_trace :: "I2C_id \<Rightarrow> u32 \<Rightarrow> nat \<Rightarrow> nat \<Rightarrow> action list" where
  "rx_trace i2c d k 0 = []"
| "rx_trace i2c d k (Suc j) =
     (if k = 0 then []
      else if k = 1 then [Write_CMD i2c I2C_CMD_NACK, Write_CMD i2c I2C_CMD_STOP]
      else [Write_CMD i2c I2C_CMD_ACK]) @ [Timer_delay d] @ rx_trace i2c d (k - 1) j"

text \<open>
  The register writes of the twelve steps of the bus reset, for a peripheral whose \<open>IFC\<close>
  reads \<open>ifc\<close> and whose interrupt-enable register holds \<open>ien\<close> at entry.
\<close>

definition reset_writes :: "I2C_id \<Rightarrow> u32 \<Rightarrow> u32 \<Rightarrow> action list" where
  "reset_writes i2c ifc ien =
     [Write_CMD i2c I2C_CMD_ABORT, Write_IEN i2c raw_I2C_IEN_RESETVALUE,
      Write_IFC i2c raw_I2C_IFC_MASK, Write_CMD i2c I2C_CMD_CLEARTX,
      Write_IFC i2c (ifc OR I2C_IFC_MSTOP), Write_CMD i2c (I2C_CMD_START OR I2C_CMD_STOP),
      Write_IFC i2c raw_I2C_IFC_MASK, Write_CMD i2c I2C_CMD_ABORT, Write_IEN i2c ien]"

text \<open>Which actions hand a callback to the scheduler, and which release the energy mode.\<close>

fun is_scheduled :: "action \<Rightarrow> bool" where
  "is_scheduled (Add_scheduled_event cb) = True"
| "is_scheduled a = False"

fun is_release :: "action \<Rightarrow> bool" where
  "is_release (Sleep_unblock_mode em) = True"
| "is_release a = False"

section \<open>Concrete inputs\<close>

definition seq_of :: "u32 list \<Rightarrow> u32 \<Rightarrow> nat \<Rightarrow> u32" where
  "seq_of xs d n = (if n < length xs then xs ! n else d)"

definition test_h :: i2c_h where
  "test_h = \<lparr>measure_RH_NHMM = 0xF5, SI7021_I2C_READ = 1, SI7021_I2C_WRITE = 0,
     I2C_ADDR_RW_SHIFT = 1, MSBYTE_SHIFT = 8, I2C_IEN_MASK = 0x1E0, I2C_EM_BLOCK = 2,
     I2C_80MS_DELAY = 80\<rparr>"

text \<open>
  A peripheral whose flag register reads \<open>ifs\<close> and then \<open>0x110\<close> (transmit buffer empty,
  stop detected) for ever, and whose receive register delivers \<open>rxs\<close>.
\<close>

definition test_periph :: "u32 list \<Rightarrow> u32 list \<Rightarrow> I2C_TypeDef" where
  "test_periph ifs rxs = \<lparr>IEN = 0x1E0, IF_reads = seq_of ifs 0x110, IF_count = 0,
     RXDATA_reads = seq_of rxs 0, RXDATA_count = 0, STATE = 0, IFC_read = 0\<rparr>"

definition test_sm :: "I2C_id \<Rightarrow> i2c_state \<Rightarrow> u32 \<Rightarrow> bool \<Rightarrow> I2C_SM_STRUCT" where
  "test_sm i2c st k b = \<lparr>I2Cn = i2c, curr_state = st, busy = b, slave_addr = 0x40,
     txdata = i2c, rxdata = i2c, data = 0, num_bytes = k, i2c_cb = 8\<rparr>"

text \<open>
  A system outside any handler, interrupts enabled, with the given live descriptor for
  \<open>I2C0\<close>, whose peripheral answers as above; \<open>I2C1\<close> is quiet, with no interrupt
  enabled.
\<close>

definition test_sys :: "I2C_SM_STRUCT \<Rightarrow> u32 list \<Rightarrow> u32 list \<Rightarrow> sys" where
  "test_sys d ifs rxs = \<lparr>i2c0_sm = d, i2c1_sm = test_sm I2C1 req_res 0 False,
     periph = (\<lambda>p. if p = I2C0 then test_periph ifs rxs else (test_periph [] [])\<lparr>IEN := 0\<rparr>),
     mem = (\<lambda>_. 0), primask = False, nvic = (\<lambda>p. p = I2C0), trace = []\<rparr>"

section \<open>Basic facts\<close>

lemmas hw_defs = I2C_CMD_START_def I2C_CMD_STOP_def I2C_CMD_ACK_def I2C_CMD_NACK_def
  I2C_CMD_CONT_def I2C_CMD_ABORT_def I2C_CMD_CLEARTX_def I2C_IF_RXDATAV_def I2C_IF_ACK_def
  I2C_IF_NACK_def I2C_IF_MSTOP_def I2C_IFC_MSTOP_def raw_I2C_IFC_MASK_def
  raw_I2C_IEN_RESETVALUE_def raw_I2C_STATE_STATE_MASK_def I2C_STATE_STATE_IDLE_def

lemmas prim_defs = emit_def write_CMD_def write_IFC_def write_TXDATA_def write_IEN_def
  next_IF_def next_RXDATA_def timer_delay_def sleep_block_mode_def sleep_unblock_mode_def
  add_scheduled_event_def CORE_EXIT_CRITICAL_def CORE_ENTER_CRITICAL_def handler_exit_def

lemmas test_defs = test_sys_def test_sm_def test_periph_def test_h_def seq_of_def

lemma andThen_simps [simp]:
  "andThen None f = None"
  "andThen (Some (Inl e)) f = Some (Inl e)"
  "andThen (Some (Inr x)) f = f x"
  by (simp_all add: andThen_def)

lemma andThen_return [simp]: "andThen m (\<lambda>x. Some (Inr x)) = m"
proof (cases m)
  case None
  then show ?thesis by simp
next
  case (Some r)
  then show ?thesis by (cases r) simp_all
qed

lemma get_put_sm [simp]:
  "get_sm n (put_sm m d s) = (if n = m then d else get_sm n s)"
  by (cases n; cases m) (simp_all add: get_sm_def put_sm_def)

lemma put_sm_proj [simp]:
  "periph (put_sm m d s) = periph s" "mem (put_sm m d s) = mem s"
  "primask (put_sm m d s) = primask s" "nvic (put_sm m d s) = nvic s"
  "trace (put_sm m d s) = trace s"
  by (cases m; simp add: put_sm_def)+

lemma get_sm_upd [simp]:
  "get_sm n (s\<lparr>primask := b\<rparr>) = get_sm n s"
  "get_sm n (s\<lparr>trace := t\<rparr>) = get_sm n s"
  "get_sm n (s\<lparr>periph := p\<rparr>) = get_sm n s"
  "get_sm n (s\<lparr>mem := m\<rparr>) = get_sm n s"
  "get_sm n (s\<lparr>nvic := v\<rparr>) = get_sm n s"
  by (cases n; simp add: get_sm_def)+

lemma put_get_sm [simp]: "put_sm n (get_sm n s) s = s"
  by (cases n) (simp_all add: put_sm_def get_sm_def)

lemma get_sm_test_sys [simp]:
  "get_sm I2C0 (test_sys d ifs rxs) = d"
  "get_sm I2C1 (test_sys d ifs rxs) = test_sm I2C1 req_res 0 False"
  by (simp_all add: get_sm_def test_sys_def)

lemma test_sys_proj [simp]:
  "trace (test_sys d ifs rxs) = []" "mem (test_sys d ifs rxs) = (\<lambda>_. 0)"
  "primask (test_sys d ifs rxs) = False" "nvic (test_sys d ifs rxs) = (\<lambda>p. p = I2C0)"
  "periph (test_sys d ifs rxs) I2C0 = test_periph ifs rxs"
  by (simp_all add: test_sys_def)

section \<open>The byte-received handler outside \<open>data_rx\<close>\<close>

lemma rxdata_idle:
  "curr_state (get_sm n s) \<noteq> data_rx \<Longrightarrow>
     i2cn_rxdata_sm h n s = Some (Inr (s\<lparr>trace := trace s @ [Timer_delay (I2C_80MS_DELAY h)]\<rparr>))"
  by (cases "curr_state (get_sm n s)"; cases "primask s")
     (simp_all add: i2cn_rxdata_sm_def prim_defs)

section \<open>Events in states that do not expect them\<close>

text \<open>
  Claim C9. An ACK or a NACK in \<open>data_rx\<close> or \<open>m_stop\<close>, and a stop-detected event in any
  state but \<open>m_stop\<close>, end in the fatal assertion. A byte-received event in any state but
  \<open>data_rx\<close> returns with the descriptors, the registers and the memory as they were: no
  command is written, and the only action is the settle delay.
\<close>

theorem unlisted_event_fatal_except_rxdata:
  "(curr_state (get_sm n s) = data_rx \<or> curr_state (get_sm n s) = m_stop \<longrightarrow>
      i2cn_ack_sm h n s = Some (Inl AssertFailed) \<and> i2cn_nack_sm h n s = Some (Inl AssertFailed))
   \<and> (curr_state (get_sm n s) \<noteq> m_stop \<longrightarrow> i2cn_mstop_sm h n s = Some (Inl AssertFailed))
   \<and> (curr_state (get_sm n s) \<noteq> data_rx \<longrightarrow>
        i2cn_rxdata_sm h n s = Some (Inr (s\<lparr>trace := trace s @ [Timer_delay (I2C_80MS_DELAY h)]\<rparr>)))"
proof (intro conjI impI)
  assume "curr_state (get_sm n s) = data_rx \<or> curr_state (get_sm n s) = m_stop"
  then show "i2cn_ack_sm h n s = Some (Inl AssertFailed)"
    by (auto simp: i2cn_ack_sm_def CORE_ENTER_CRITICAL_def)
next
  assume "curr_state (get_sm n s) = data_rx \<or> curr_state (get_sm n s) = m_stop"
  then show "i2cn_nack_sm h n s = Some (Inl AssertFailed)"
    by (auto simp: i2cn_nack_sm_def CORE_ENTER_CRITICAL_def)
next
  assume "curr_state (get_sm n s) \<noteq> m_stop"
  then show "i2cn_mstop_sm h n s = Some (Inl AssertFailed)"
    by (cases "curr_state (get_sm n s)") (simp_all add: i2cn_mstop_sm_def CORE_ENTER_CRITICAL_def)
next
  assume "curr_state (get_sm n s) \<noteq> data_rx"
  then show "i2cn_rxdata_sm h n s =
      Some (Inr (s\<lparr>trace := trace s @ [Timer_delay (I2C_80MS_DELAY h)]\<rparr>))"
    by (rule rxdata_idle)
qed

theorem unlisted_event_fatal_except_rxdata_witness:
  "i2cn_ack_sm test_h I2C0 (test_sys (test_sm I2C0 data_rx 2 True) [] []) = Some (Inl AssertFailed)
   \<and> i2cn_nack_sm test_h I2C0 (test_sys (test_sm I2C0 m_stop 0 True) [] []) = Some (Inl AssertFailed)
   \<and> i2cn_mstop_sm test_h I2C0 (test_sys (test_sm I2C0 data_rx 2 True) [] []) = Some (Inl AssertFailed)
   \<and> i2cn_rxdata_sm test_h I2C0 (test_sys (test_sm I2C0 m_stop 0 True) [] []) =
       Some (Inr ((test_sys (test_sm I2C0 m_stop 0 True) [] [])\<lparr>trace := [Timer_delay 80]\<rparr>))"
  using unlisted_event_fatal_except_rxdata [of I2C0 "test_sys (test_sm I2C0 data_rx 2 True) [] []" test_h]
    unlisted_event_fatal_except_rxdata [of I2C0 "test_sys (test_sm I2C0 m_stop 0 True) [] []" test_h]
  by (simp add: test_sm_def) (simp add: test_sys_def test_h_def)

section \<open>Facts about the bus reset\<close>

lemma wait_mstop_frame:
  assumes "wait_mstop i2c s = Some s'"
  shows "\<exists>c. s' = s\<lparr>periph := (periph s)(i2c := (periph s i2c)\<lparr>IF_count := c\<rparr>)\<rparr>"
  using assms
proof (induct rule: wait_mstop.raw_induct [rotated 1, consumes 1])
  case (1 wait_mstop i2c s s')
  show ?case
  proof (cases "peek_IF i2c s AND I2C_IF_MSTOP \<noteq> 0")
    case True
    with 1(2) have "s' = next_IF i2c s" by simp
    then show ?thesis unfolding next_IF_def by blast
  next
    case False
    with 1(2) have "wait_mstop i2c (next_IF i2c s) = Some s'" by simp
    from 1(1)[OF this] obtain c where
      "s' = (next_IF i2c s)\<lparr>periph := (periph (next_IF i2c s))
              (i2c := (periph (next_IF i2c s) i2c)\<lparr>IF_count := c\<rparr>)\<rparr>"
      by blast
    then have "s' = s\<lparr>periph := (periph s)(i2c := (periph s i2c)\<lparr>IF_count := c\<rparr>)\<rparr>"
      by (simp add: next_IF_def)
    then show ?thesis by blast
  qed
qed

lemma wait_mstop_returns:
  "IF_reads (periph s i2c) (IF_count (periph s i2c) + k) AND I2C_IF_MSTOP \<noteq> 0 \<Longrightarrow>
     \<exists>s'. wait_mstop i2c s = Some s'"
proof (induction k arbitrary: s)
  case 0
  then show ?case by (subst wait_mstop.simps) (simp add: peek_IF_def)
next
  case (Suc k)
  have "IF_reads (periph (next_IF i2c s) i2c) (IF_count (periph (next_IF i2c s) i2c) + k)
          AND I2C_IF_MSTOP \<noteq> 0"
    using Suc.prems by (simp add: next_IF_def)
  from Suc.IH[OF this] show ?case by (subst wait_mstop.simps) auto
qed

lemma i2c_bus_reset_no_fault: "i2c_bus_reset i2c s \<noteq> Some (Inl e)"
  by (auto simp: i2c_bus_reset_def Let_def raw_I2C_IEN_RESETVALUE_def split: option.splits)

lemma i2c_bus_reset_returns:
  assumes "IF_reads (periph s i2c) (Suc (IF_count (periph s i2c)) + k) AND I2C_IF_MSTOP \<noteq> 0"
  shows "\<exists>s'. i2c_bus_reset i2c s = Some (Inr s')"
proof -
  let ?s7 = "write_CMD i2c (I2C_CMD_START OR I2C_CMD_STOP)
      (write_IFC i2c (IFC_read (periph s i2c) OR I2C_IFC_MSTOP)
        (write_CMD i2c I2C_CMD_CLEARTX (next_IF i2c (write_IFC i2c raw_I2C_IFC_MASK
          (write_IEN i2c raw_I2C_IEN_RESETVALUE (write_CMD i2c I2C_CMD_ABORT s))))))"
  have "IF_reads (periph ?s7 i2c) (IF_count (periph ?s7 i2c) + k) AND I2C_IF_MSTOP \<noteq> 0"
    using assms by (simp add: prim_defs)
  from wait_mstop_returns[OF this] obtain s8 where "wait_mstop i2c ?s7 = Some s8" by blast
  moreover have "IFC_read (periph (write_CMD i2c I2C_CMD_CLEARTX (next_IF i2c
      (write_IFC i2c raw_I2C_IFC_MASK (write_IEN i2c raw_I2C_IEN_RESETVALUE
        (write_CMD i2c I2C_CMD_ABORT s))))) i2c) = IFC_read (periph s i2c)"
    by (simp add: prim_defs)
  ultimately show ?thesis
    by (simp add: i2c_bus_reset_def Let_def raw_I2C_IEN_RESETVALUE_def)
qed

lemma i2c_bus_reset_effect:
  assumes "i2c_bus_reset i2c s = Some r"
  shows "\<exists>c. r = Inr (s\<lparr>periph := (periph s)(i2c := (periph s i2c)\<lparr>IF_count := c\<rparr>),
      trace := trace s @ reset_writes i2c (IFC_read (periph s i2c)) (IEN (periph s i2c))\<rparr>)"
  using assms
  by (auto simp: i2c_bus_reset_def Let_def raw_I2C_IEN_RESETVALUE_def prim_defs reset_writes_def
      split: option.splits dest!: wait_mstop_frame)

text \<open>
  Claim C7. A call of the bus reset that returns has not failed, leaves the interrupt-enable
  register of every peripheral as it found it, and has written nine registers in between
  (\<open>reset_writes\<close>): the reset value, with every interrupt disabled, goes to \<open>IEN\<close> as the
  second write, and the value saved at entry comes back as the last.
\<close>

theorem i2c_bus_reset_restores_IEN:
  assumes "i2c_bus_reset i2c s = Some r"
  shows "\<exists>s'. r = Inr s' \<and> IEN (periph s' m) = IEN (periph s m)
      \<and> trace s' = trace s @ reset_writes i2c (IFC_read (periph s i2c)) (IEN (periph s i2c))"
  using i2c_bus_reset_effect [OF assms] by auto

theorem i2c_bus_reset_restores_IEN_witness:
  "\<exists>s'. i2c_bus_reset I2C0 (test_sys (test_sm I2C0 m_stop 0 False) [] []) = Some (Inr s')
      \<and> IEN (periph s' I2C0) = 0x1E0
      \<and> trace s' = [Write_CMD I2C0 0x20, Write_IEN I2C0 0, Write_IFC I2C0 0x7FFCF,
           Write_CMD I2C0 0x40, Write_IFC I2C0 0x100, Write_CMD I2C0 3, Write_IFC I2C0 0x7FFCF,
           Write_CMD I2C0 0x20, Write_IEN I2C0 0x1E0]"
proof -
  let ?s = "test_sys (test_sm I2C0 m_stop 0 False) [] []"
  have "IF_reads (periph ?s I2C0) (Suc (IF_count (periph ?s I2C0)) + 0) AND I2C_IF_MSTOP \<noteq> 0"
    by (simp add: test_defs I2C_IF_MSTOP_def)
  from i2c_bus_reset_returns [OF this] obtain s' where r: "i2c_bus_reset I2C0 ?s = Some (Inr s')"
    by blast
  from i2c_bus_reset_restores_IEN [OF r, of I2C0] show ?thesis
    using r by (simp add: test_periph_def seq_of_def hw_defs reset_writes_def)
qed

text \<open>
  Claim C8, evaluated. The flag register reads \<open>0x10\<close> (transmit buffer empty, a flag
  that \<open>IFC\<close> does not clear) at the assertion that follows the clearing of the flags,
  then \<open>0x110\<close>. The mask of the assertion is the reset value of \<open>IEN\<close>, which is 0, so
  the assertion passes with the flag set, and the reset runs to its end after two reads of
  the flag register. Whatever the registers hold, no call of the bus reset ends in the
  assertion.
\<close>

theorem bus_reset_assertion_passes_with_flag_set:
  "i2c_bus_reset i2c s \<noteq> Some (Inl AssertFailed)
   \<and> peek_IF I2C0 (test_sys (test_sm I2C0 m_stop 0 False) [0x10] []) = 0x10
   \<and> (\<exists>s'. i2c_bus_reset I2C0 (test_sys (test_sm I2C0 m_stop 0 False) [0x10] []) = Some (Inr s')
         \<and> IF_count (periph s' I2C0) = 2)"
proof (intro conjI)
  show "i2c_bus_reset i2c s \<noteq> Some (Inl AssertFailed)"
    by (rule i2c_bus_reset_no_fault)
next
  show "peek_IF I2C0 (test_sys (test_sm I2C0 m_stop 0 False) [0x10] []) = 0x10"
    by (simp add: peek_IF_def test_periph_def seq_of_def)
next
  show "\<exists>s'. i2c_bus_reset I2C0 (test_sys (test_sm I2C0 m_stop 0 False) [0x10] []) = Some (Inr s')
         \<and> IF_count (periph s' I2C0) = 2"
    apply (subst i2c_bus_reset_def)
    apply (subst wait_mstop.simps)
    apply (simp add: Let_def prim_defs test_defs hw_defs peek_IF_def)
    done
qed

section \<open>Facts about the start of a transaction\<close>

lemma busy_wait_ready: "\<not> busy (get_sm n s) \<Longrightarrow> busy_wait h n s = Some (Inr s)"
  by (subst busy_wait.simps) simp

lemma busy_wait_exit:
  assumes "busy_wait h n s = Some r"
  shows "\<not> (primask s \<and> busy (get_sm n s)) \<and> (\<forall>s'. r = Inr s' \<longrightarrow> \<not> busy (get_sm n s'))"
  using assms
proof (induct rule: busy_wait.raw_induct [rotated 1, consumes 1])
  case (1 busy_wait h n s r)
  show ?case
  proof (cases "busy (get_sm n s)")
    case False
    with 1(2) show ?thesis by auto
  next
    case True
    show ?thesis
    proof (cases "primask s")
      case True
      with \<open>busy (get_sm n s)\<close> 1(2) have "busy_wait h n s = Some r"
        by (simp add: take_interrupts_def)
      from 1(1)[OF this] True \<open>busy (get_sm n s)\<close> show ?thesis by simp
    next
      case False
      show ?thesis
      proof (cases "take_interrupts h s")
        case None
        with \<open>busy (get_sm n s)\<close> 1(2) show ?thesis by simp
      next
        case (Some t)
        show ?thesis
        proof (cases t)
          case (Inl e)
          with Some \<open>busy (get_sm n s)\<close> 1(2) False show ?thesis by auto
        next
          case (Inr s1)
          with Some \<open>busy (get_sm n s)\<close> 1(2) have "busy_wait h n s1 = Some r" by simp
          from 1(1)[OF this] False show ?thesis by simp
        qed
      qed
    qed
  qed
qed

lemma busy_wait_masked: "primask s \<Longrightarrow> busy (get_sm n s) \<Longrightarrow> busy_wait h n s = None"
  using busy_wait_exit [of h n s] by (cases "busy_wait h n s") auto


lemma init_branch_ready:
  "\<not> busy (get_sm n s) \<Longrightarrow> init_branch h n d s =
     (if STATE (periph s n) AND raw_I2C_STATE_STATE_MASK \<noteq> I2C_STATE_STATE_IDLE
      then Some (Inl AssertFailed)
      else Some (Inr (emit (NVIC_EnableIRQ n) ((put_sm n d s)\<lparr>nvic := (nvic s)(n := True)\<rparr>))))"
  by (simp add: init_branch_def busy_wait_ready Let_def)

lemma init_branch_masked:
  "primask s \<Longrightarrow> busy (get_sm n s) \<Longrightarrow> init_branch h n d s = None"
  by (simp add: init_branch_def busy_wait_masked)

lemma i2c_init_sm_busy:
  "busy (get_sm (I2Cn d) s) \<Longrightarrow> i2c_init_sm h d s = None"
  by (cases "I2Cn d") (simp_all add: i2c_init_sm_def Let_def prim_defs init_branch_masked)

lemma i2c_init_sm_ready:
  assumes "\<not> busy (get_sm (I2Cn d) s)"
  shows "i2c_init_sm h d s =
     (if STATE (periph s (I2Cn d)) AND raw_I2C_STATE_STATE_MASK \<noteq> I2C_STATE_STATE_IDLE
      then Some (Inl AssertFailed)
      else Some (Inr (d\<lparr>busy := True\<rparr>,
        (put_sm (I2Cn d) (d\<lparr>busy := True\<rparr>) s)\<lparr>
           periph := (periph s)(I2Cn d := (periph s (I2Cn d))\<lparr>IEN := I2C_IEN_MASK h\<rparr>),
           nvic := (nvic s)(I2Cn d := True),
           trace := trace s @ [Sleep_block_mode (I2C_EM_BLOCK h), Write_IEN (I2Cn d) (I2C_IEN_MASK h),
             NVIC_EnableIRQ (I2Cn d), Timer_delay (I2C_80MS_DELAY h)]\<rparr>)))"
  using assms
  by (cases "I2Cn d"; cases "primask s")
     (simp_all add: i2c_init_sm_def Let_def prim_defs init_branch_ready put_sm_def)

subsection \<open>The bounded run agrees with the call\<close>

lemma thenP_simps [simp]:
  "thenP (Waiting s) f = Waiting s"
  "thenP (Ended (Inl e)) f = Ended (Inl e)"
  "thenP (Ended (Inr x)) f = f x"
  by (simp_all add: thenP_def)

lemma busy_wait_upto_sound:
  "busy_wait_upto j h n s = Ended r \<Longrightarrow> busy_wait h n s = Some r"
proof (induction j arbitrary: s)
  case 0
  then show ?case by (auto simp: busy_wait_ready split: if_splits)
next
  case (Suc j)
  show ?case
  proof (cases "busy (get_sm n s)")
    case False
    with Suc.prems show ?thesis by (simp add: busy_wait_ready)
  next
    case True
    with Suc.prems Suc.IH show ?thesis
      by (subst busy_wait.simps) (auto split: option.splits sum.splits)
  qed
qed

lemma busy_wait_upto_complete:
  assumes "busy_wait h n s = Some r"
  shows "\<exists>j. busy_wait_upto j h n s = Ended r"
  using assms
proof (induct rule: busy_wait.raw_induct [rotated 1, consumes 1])
  case (1 busy_wait h n s r)
  show ?case
  proof (cases "busy (get_sm n s)")
    case False
    with 1(2) have "busy_wait_upto 0 h n s = Ended r" by auto
    then show ?thesis by blast
  next
    case True
    show ?thesis
    proof (cases "take_interrupts h s")
      case None
      with True 1(2) show ?thesis by simp
    next
      case (Some t)
      show ?thesis
      proof (cases t)
        case (Inl e)
        with Some True 1(2) have "busy_wait_upto (Suc 0) h n s = Ended r" by auto
        then show ?thesis by blast
      next
        case (Inr s1)
        with Some True 1(2) have "busy_wait h n s1 = Some r" by simp
        from 1(1) [OF this] obtain j where "busy_wait_upto j h n s1 = Ended r" by blast
        with Some Inr True have "busy_wait_upto (Suc j) h n s = Ended r" by simp
        then show ?thesis by blast
      qed
    qed
  qed
qed

lemma run_n_Suc_front:
  "f s = Some (Inr s1) \<Longrightarrow> run_n i f s1 = Some (Inr s2) \<Longrightarrow> run_n (Suc i) f s = Some (Inr s2)"
  by simp

lemma busy_wait_upto_reach:
  "(busy_wait_upto j h n s = Waiting s1 \<longrightarrow>
      busy (get_sm n s1) \<and> (\<exists>i\<le>j. run_n i (take_interrupts h) s = Some (Inr s1)))
   \<and> (busy_wait_upto j h n s = Ended (Inr s1) \<longrightarrow>
      \<not> busy (get_sm n s1) \<and> (\<exists>i\<le>j. run_n i (take_interrupts h) s = Some (Inr s1)))"
proof (induction j arbitrary: s)
  case 0
  show ?case by auto
next
  case (Suc j)
  show ?case
  proof (cases "busy (get_sm n s)")
    case False
    then show ?thesis by auto
  next
    case True
    show ?thesis
    proof (cases "take_interrupts h s")
      case None
      with True show ?thesis by auto
    next
      case (Some t)
      show ?thesis
      proof (cases t)
        case (Inl e)
        with Some True show ?thesis by simp
      next
        case (Inr s2)
        have step: "\<And>i. i \<le> j \<Longrightarrow> run_n i (take_interrupts h) s2 = Some (Inr s1) \<Longrightarrow>
            \<exists>i\<le>Suc j. run_n i (take_interrupts h) s = Some (Inr s1)"
        proof -
          fix i assume "i \<le> j" "run_n i (take_interrupts h) s2 = Some (Inr s1)"
          then have "Suc i \<le> Suc j \<and> run_n (Suc i) (take_interrupts h) s = Some (Inr s1)"
            using Some Inr by simp
          then show "\<exists>i\<le>Suc j. run_n i (take_interrupts h) s = Some (Inr s1)" by blast
        qed
        from Suc.IH [of s2] Some Inr True step show ?thesis by auto
      qed
    qed
  qed
qed

lemma busy_wait_upto_masked:
  "primask s \<Longrightarrow> busy (get_sm n s) \<Longrightarrow> busy_wait_upto j h n s = Waiting s"
  by (induction j) (simp_all add: take_interrupts_def)

lemma busy_wait_upto_ready:
  "\<not> busy (get_sm n s) \<Longrightarrow> busy_wait_upto j h n s = Ended (Inr s)"
  by (cases j) simp_all

lemma init_branch_adequate:
  "(init_branch h n d s = Some r) = (\<exists>j. init_branch_upto j h n d s = Ended r)"
proof
  assume a: "init_branch h n d s = Some r"
  then obtain t where t: "busy_wait h n s = Some t"
    by (cases "busy_wait h n s") (simp_all add: init_branch_def)
  from busy_wait_upto_complete [OF t] obtain j where j: "busy_wait_upto j h n s = Ended t" by blast
  from a t j have "init_branch_upto j h n d s = Ended r"
    by (cases t) (auto simp: init_branch_def init_branch_upto_def Let_def split: if_splits)
  then show "\<exists>j. init_branch_upto j h n d s = Ended r" by blast
next
  assume "\<exists>j. init_branch_upto j h n d s = Ended r"
  then obtain j where a: "init_branch_upto j h n d s = Ended r" by blast
  then obtain t where t: "busy_wait_upto j h n s = Ended t"
    by (cases "busy_wait_upto j h n s") (simp_all add: init_branch_upto_def)
  from busy_wait_upto_sound [OF t] a t show "init_branch h n d s = Some r"
    by (cases t) (auto simp: init_branch_def init_branch_upto_def Let_def split: if_splits)
qed

lemma init_branch_observed:
  "(init_branch_upto j h n d s = Waiting s1 \<longrightarrow>
      busy (get_sm n s1) \<and> (\<exists>i\<le>j. run_n i (take_interrupts h) s = Some (Inr s1)))
   \<and> (init_branch_upto j h n d s = Ended (Inr s2) \<longrightarrow>
      (\<exists>i\<le>j. \<exists>s1. run_n i (take_interrupts h) s = Some (Inr s1) \<and> \<not> busy (get_sm n s1)
         \<and> s2 = emit (NVIC_EnableIRQ n) ((put_sm n d s1)\<lparr>nvic := (nvic s1)(n := True)\<rparr>)))"
proof (cases "busy_wait_upto j h n s")
  case (Waiting w)
  with busy_wait_upto_reach [of j h n s w] show ?thesis
    by (auto simp: init_branch_upto_def)
next
  case (Ended t)
  show ?thesis
  proof (cases t)
    case (Inl e)
    with Ended show ?thesis by (simp add: init_branch_upto_def)
  next
    case (Inr w)
    with Ended busy_wait_upto_reach [of j h n s w] show ?thesis
      by (auto simp: init_branch_upto_def Let_def split: if_splits)
  qed
qed

lemma i2c_init_sm_upto_busy:
  "busy (get_sm (I2Cn d) s) \<Longrightarrow> i2c_init_sm_upto j h d s =
     Waiting (write_IEN (I2Cn d) (I2C_IEN_MASK h)
       ((sleep_block_mode (I2C_EM_BLOCK h) s)\<lparr>primask := True\<rparr>))"
  by (cases "I2Cn d")
     (simp_all add: i2c_init_sm_upto_def init_branch_upto_def Let_def prim_defs busy_wait_upto_masked)

lemma i2c_init_sm_upto_ready:
  assumes "\<not> busy (get_sm (I2Cn d) s)"
  shows "i2c_init_sm_upto j h d s =
     (if STATE (periph s (I2Cn d)) AND raw_I2C_STATE_STATE_MASK \<noteq> I2C_STATE_STATE_IDLE
      then Ended (Inl AssertFailed)
      else Ended (Inr (d\<lparr>busy := True\<rparr>,
        (put_sm (I2Cn d) (d\<lparr>busy := True\<rparr>) s)\<lparr>
           periph := (periph s)(I2Cn d := (periph s (I2Cn d))\<lparr>IEN := I2C_IEN_MASK h\<rparr>),
           nvic := (nvic s)(I2Cn d := True),
           trace := trace s @ [Sleep_block_mode (I2C_EM_BLOCK h), Write_IEN (I2Cn d) (I2C_IEN_MASK h),
             NVIC_EnableIRQ (I2Cn d), Timer_delay (I2C_80MS_DELAY h)]\<rparr>)))"
  using assms
  by (cases "I2Cn d"; cases "primask s")
     (simp_all add: i2c_init_sm_upto_def init_branch_upto_def Let_def prim_defs
        busy_wait_upto_ready put_sm_def)

lemma i2c_init_sm_adequate:
  "(i2c_init_sm h d s = Some r) = (\<exists>j. i2c_init_sm_upto j h d s = Ended r)"
proof (cases "busy (get_sm (I2Cn d) s)")
  case True
  then show ?thesis by (simp add: i2c_init_sm_busy i2c_init_sm_upto_busy)
next
  case False
  then show ?thesis by (auto simp: i2c_init_sm_ready i2c_init_sm_upto_ready)
qed

section \<open>Which handler changes the busy flag\<close>

lemma ack_keeps_busy:
  "i2cn_ack_sm h n s = Some (Inr s') \<Longrightarrow> busy (get_sm m s') = busy (get_sm m s)"
  by (cases "curr_state (get_sm n s)"; cases "primask s")
     (auto simp: i2cn_ack_sm_def prim_defs Let_def split: sum.splits if_splits)

lemma nack_keeps_busy:
  "i2cn_nack_sm h n s = Some (Inr s') \<Longrightarrow> busy (get_sm m s') = busy (get_sm m s)"
  by (cases "curr_state (get_sm n s)"; cases "primask s")
     (auto simp: i2cn_nack_sm_def prim_defs Let_def split: if_splits)

lemma rxdata_keeps_busy:
  "i2cn_rxdata_sm h n s = Some (Inr s') \<Longrightarrow> busy (get_sm m s') = busy (get_sm m s)"
  by (cases "curr_state (get_sm n s)"; cases "primask s")
     (auto simp: i2cn_rxdata_sm_def prim_defs Let_def split: sum.splits if_splits)

text \<open>The completion path: what a stop-detected event in \<open>m_stop\<close> does when it returns.\<close>

lemma mstop_effect:
  assumes r: "i2cn_mstop_sm h n s = Some (Inr s')"
  shows "curr_state (get_sm n s) = m_stop
     \<and> (\<exists>c. s' = (put_sm n ((get_sm n s)\<lparr>busy := False\<rparr>) s)\<lparr>
           periph := (periph s)(I2Cn (get_sm n s) := (periph s (I2Cn (get_sm n s)))\<lparr>IF_count := c\<rparr>),
           trace := trace s @ [Sleep_unblock_mode (I2C_EM_BLOCK h),
               Add_scheduled_event (i2c_cb (get_sm n s))]
             @ reset_writes (I2Cn (get_sm n s)) (IFC_read (periph s (I2Cn (get_sm n s))))
                 (IEN (periph s (I2Cn (get_sm n s))))
             @ [Timer_delay (I2C_80MS_DELAY h)]\<rparr>)"
proof (cases "curr_state (get_sm n s) = m_stop")
  case False
  then have "i2cn_mstop_sm h n s = Some (Inl AssertFailed)"
    by (cases "curr_state (get_sm n s)") (simp_all add: i2cn_mstop_sm_def CORE_ENTER_CRITICAL_def)
  with r show ?thesis by simp
next
  case True
  let ?s4 = "add_scheduled_event (i2c_cb (get_sm n s)) (sleep_unblock_mode (I2C_EM_BLOCK h)
      (put_sm n ((get_sm n s)\<lparr>busy := False\<rparr>) (s\<lparr>primask := True\<rparr>)))"
  from r True obtain t where t: "i2c_bus_reset (I2Cn (get_sm n s)) ?s4 = Some t"
    by (cases "i2c_bus_reset (I2Cn (get_sm n s)) ?s4")
       (auto simp: i2cn_mstop_sm_def CORE_ENTER_CRITICAL_def Let_def)
  from i2c_bus_reset_effect [OF t] obtain c where
    "t = Inr (?s4\<lparr>periph := (periph ?s4)(I2Cn (get_sm n s) :=
            (periph ?s4 (I2Cn (get_sm n s)))\<lparr>IF_count := c\<rparr>),
          trace := trace ?s4 @ reset_writes (I2Cn (get_sm n s))
            (IFC_read (periph ?s4 (I2Cn (get_sm n s)))) (IEN (periph ?s4 (I2Cn (get_sm n s))))\<rparr>)"
    by blast
  with r t True have "s' = (put_sm n ((get_sm n s)\<lparr>busy := False\<rparr>) s)\<lparr>
           periph := (periph s)(I2Cn (get_sm n s) := (periph s (I2Cn (get_sm n s)))\<lparr>IF_count := c\<rparr>),
           trace := trace s @ [Sleep_unblock_mode (I2C_EM_BLOCK h),
               Add_scheduled_event (i2c_cb (get_sm n s))]
             @ reset_writes (I2Cn (get_sm n s)) (IFC_read (periph s (I2Cn (get_sm n s))))
                 (IEN (periph s (I2Cn (get_sm n s))))
             @ [Timer_delay (I2C_80MS_DELAY h)]\<rparr>"
    by (cases s; cases n; cases "primask s")
       (auto simp: i2cn_mstop_sm_def Let_def prim_defs put_sm_def get_sm_def)
  with True show ?thesis by blast
qed

lemma mstop_returns:
  assumes "curr_state (get_sm n s) = m_stop"
    and "IF_reads (periph s (I2Cn (get_sm n s))) (Suc (IF_count (periph s (I2Cn (get_sm n s)))) + k)
           AND I2C_IF_MSTOP \<noteq> 0"
  shows "\<exists>s'. i2cn_mstop_sm h n s = Some (Inr s')"
proof -
  let ?s4 = "add_scheduled_event (i2c_cb (get_sm n s)) (sleep_unblock_mode (I2C_EM_BLOCK h)
      (put_sm n ((get_sm n s)\<lparr>busy := False\<rparr>) (s\<lparr>primask := True\<rparr>)))"
  have "\<exists>s5. i2c_bus_reset (I2Cn (get_sm n s)) ?s4 = Some (Inr s5)"
    by (rule i2c_bus_reset_returns [where k = k]) (use assms(2) in \<open>simp add: prim_defs\<close>)
  with assms(1) show ?thesis
    by (auto simp: i2cn_mstop_sm_def CORE_ENTER_CRITICAL_def Let_def handler_exit_def)
qed

lemma mstop_clears_busy:
  assumes "i2cn_mstop_sm h n s = Some (Inr s')"
  shows "curr_state (get_sm n s) = m_stop \<and> \<not> busy (get_sm n s')"
  using mstop_effect [OF assms] by auto

section \<open>The ACK and NACK handlers, state by state\<close>

lemma ack_req_res:
  "curr_state (get_sm n s) = req_res \<Longrightarrow> i2cn_ack_sm h n s =
     Some (Inr ((put_sm n ((get_sm n s)\<lparr>curr_state := command_tx\<rparr>) s)\<lparr>trace := trace s @
       [Write_TXDATA (txdata (get_sm n s)) (measure_RH_NHMM h), Timer_delay (I2C_80MS_DELAY h)]\<rparr>))"
  by (cases n; cases "primask s")
     (simp_all add: i2cn_ack_sm_def prim_defs Let_def put_sm_def get_sm_def)

lemma ack_command_tx:
  "curr_state (get_sm n s) = command_tx \<Longrightarrow> unat (I2C_ADDR_RW_SHIFT h) < 32 \<Longrightarrow>
   i2cn_ack_sm h n s =
     Some (Inr ((put_sm n ((get_sm n s)\<lparr>curr_state := data_req\<rparr>) s)\<lparr>trace := trace s @
       [Write_CMD (I2Cn (get_sm n s)) I2C_CMD_START,
        Write_TXDATA (txdata (get_sm n s))
          (push_bit (unat (I2C_ADDR_RW_SHIFT h)) (slave_addr (get_sm n s)) OR SI7021_I2C_READ h),
        Timer_delay (I2C_80MS_DELAY h)]\<rparr>))"
  by (cases n; cases "primask s")
     (simp_all add: i2cn_ack_sm_def prim_defs Let_def put_sm_def get_sm_def shl32_def)

lemma ack_data_req:
  "curr_state (get_sm n s) = data_req \<Longrightarrow> i2cn_ack_sm h n s =
     Some (Inr ((put_sm n ((get_sm n s)\<lparr>curr_state := data_rx\<rparr>) s)\<lparr>trace := trace s @
       [Timer_delay (I2C_80MS_DELAY h)]\<rparr>))"
  by (cases n; cases "primask s")
     (simp_all add: i2cn_ack_sm_def prim_defs Let_def put_sm_def get_sm_def)

lemma nack_req_res:
  "curr_state (get_sm n s) = req_res \<Longrightarrow> i2cn_nack_sm h n s =
     Some (Inr (s\<lparr>trace := trace s @
       [Write_CMD (I2Cn (get_sm n s)) I2C_CMD_START,
        Write_TXDATA (txdata (get_sm n s)) (slave_addr (get_sm n s) OR SI7021_I2C_WRITE h),
        Timer_delay (I2C_80MS_DELAY h)]\<rparr>))"
  by (cases "primask s") (simp_all add: i2cn_nack_sm_def prim_defs Let_def)

lemma nack_command_tx:
  "curr_state (get_sm n s) = command_tx \<Longrightarrow> i2cn_nack_sm h n s =
     Some (Inr (s\<lparr>trace := trace s @
       [Write_CMD (I2Cn (get_sm n s)) I2C_CMD_CONT,
        Write_TXDATA (txdata (get_sm n s)) (measure_RH_NHMM h),
        Timer_delay (I2C_80MS_DELAY h)]\<rparr>))"
  by (cases "primask s") (simp_all add: i2cn_nack_sm_def prim_defs Let_def)

lemma nack_data_req:
  "curr_state (get_sm n s) = data_req \<Longrightarrow> i2cn_nack_sm h n s =
     Some (Inr (s\<lparr>trace := trace s @
       [Write_CMD (I2Cn (get_sm n s)) I2C_CMD_START,
        Write_TXDATA (txdata (get_sm n s)) (slave_addr (get_sm n s) OR SI7021_I2C_READ h),
        Timer_delay (I2C_80MS_DELAY h)]\<rparr>))"
  by (cases "primask s") (simp_all add: i2cn_nack_sm_def prim_defs Let_def)

text \<open>
  Claim C2, evaluated for the slave address \<open>0x40\<close>. The original transmission
  (\<open>i2c_tx_start\<close> with the write bit) sends the header \<open>0x80\<close>, the address shifted
  left by one; the NACK handler in \<open>req_res\<close> sends \<open>0x40\<close>, the address as it is. The
  ACK handler in \<open>command_tx\<close> sends the read header \<open>0x81\<close>; the NACK handler in
  \<open>data_req\<close> sends \<open>0x41\<close>. Commands and state are those of the table.
\<close>

theorem nack_retransmits_unshifted_address:
  "trace (i2c_tx_start (test_sm I2C0 req_res 2 True) (SI7021_I2C_WRITE test_h)
           (test_sys (test_sm I2C0 req_res 2 True) [] []))
     = [Write_CMD I2C0 I2C_CMD_START, Write_TXDATA I2C0 0x80]
   \<and> i2cn_nack_sm test_h I2C0 (test_sys (test_sm I2C0 req_res 2 True) [] [])
     = Some (Inr ((test_sys (test_sm I2C0 req_res 2 True) [] [])\<lparr>trace :=
         [Write_CMD I2C0 I2C_CMD_START, Write_TXDATA I2C0 0x40, Timer_delay 80]\<rparr>))
   \<and> i2cn_ack_sm test_h I2C0 (test_sys (test_sm I2C0 command_tx 2 True) [] [])
     = Some (Inr ((test_sys (test_sm I2C0 data_req 2 True) [] [])\<lparr>trace :=
         [Write_CMD I2C0 I2C_CMD_START, Write_TXDATA I2C0 0x81, Timer_delay 80]\<rparr>))
   \<and> i2cn_nack_sm test_h I2C0 (test_sys (test_sm I2C0 data_req 2 True) [] [])
     = Some (Inr ((test_sys (test_sm I2C0 data_req 2 True) [] [])\<lparr>trace :=
         [Write_CMD I2C0 I2C_CMD_START, Write_TXDATA I2C0 0x41, Timer_delay 80]\<rparr>))"
proof (intro conjI)
  show "trace (i2c_tx_start (test_sm I2C0 req_res 2 True) (SI7021_I2C_WRITE test_h)
           (test_sys (test_sm I2C0 req_res 2 True) [] []))
     = [Write_CMD I2C0 I2C_CMD_START, Write_TXDATA I2C0 0x80]"
    by (simp add: i2c_tx_start_def prim_defs test_defs)
next
  show "i2cn_nack_sm test_h I2C0 (test_sys (test_sm I2C0 req_res 2 True) [] [])
     = Some (Inr ((test_sys (test_sm I2C0 req_res 2 True) [] [])\<lparr>trace :=
         [Write_CMD I2C0 I2C_CMD_START, Write_TXDATA I2C0 0x40, Timer_delay 80]\<rparr>))"
    by (subst nack_req_res) (simp_all add: test_defs get_sm_def)
next
  show "i2cn_ack_sm test_h I2C0 (test_sys (test_sm I2C0 command_tx 2 True) [] [])
     = Some (Inr ((test_sys (test_sm I2C0 data_req 2 True) [] [])\<lparr>trace :=
         [Write_CMD I2C0 I2C_CMD_START, Write_TXDATA I2C0 0x81, Timer_delay 80]\<rparr>))"
    by (subst ack_command_tx) (simp_all add: test_defs put_sm_def get_sm_def)
next
  show "i2cn_nack_sm test_h I2C0 (test_sys (test_sm I2C0 data_req 2 True) [] [])
     = Some (Inr ((test_sys (test_sm I2C0 data_req 2 True) [] [])\<lparr>trace :=
         [Write_CMD I2C0 I2C_CMD_START, Write_TXDATA I2C0 0x41, Timer_delay 80]\<rparr>))"
    by (subst nack_data_req) (simp_all add: test_defs get_sm_def)
qed

section \<open>One live transaction per peripheral\<close>

lemma irq_mstop_only:
  "peek_IF n s AND IEN (periph s n) = I2C_IF_MSTOP \<Longrightarrow>
     I2Cn_IRQHandler h n s = i2cn_mstop_sm h n (write_IFC n I2C_IF_MSTOP (next_IF n s))"
  by (simp add: I2Cn_IRQHandler_def Let_def hw_defs)

text \<open>
  The first transaction on \<open>I2C0\<close> has reached \<open>m_stop\<close> and its stop-detected interrupt is
  pending: taking the interrupt runs the completion path, which clears \<open>busy\<close> and hands
  the callback to the scheduler.
\<close>

lemma pending_stop_taken:
  "\<exists>s2. take_interrupts test_h (test_sys (test_sm I2C0 m_stop 0 True) [0x100] []) = Some (Inr s2)
      \<and> get_sm I2C0 s2 = test_sm I2C0 m_stop 0 False
      \<and> STATE (periph s2 I2C0) = 0
      \<and> filter is_scheduled (trace s2) = [Add_scheduled_event 8]"
proof -
  let ?s = "test_sys (test_sm I2C0 m_stop 0 True) [0x100] []"
  let ?s1 = "write_IFC I2C0 I2C_IF_MSTOP (next_IF I2C0 ?s)"
  have pend: "irq_pending I2C0 ?s"
    by (simp add: irq_pending_def peek_IF_def test_defs)
  have flags: "peek_IF I2C0 ?s AND IEN (periph ?s I2C0) = I2C_IF_MSTOP"
    by (simp add: peek_IF_def test_defs hw_defs)
  have "\<exists>s2. i2cn_mstop_sm test_h I2C0 ?s1 = Some (Inr s2)"
    by (rule mstop_returns [where k = 0]) (simp_all add: prim_defs test_defs hw_defs get_sm_def)
  then obtain s2 where r: "i2cn_mstop_sm test_h I2C0 ?s1 = Some (Inr s2)" by blast
  with flags have irq: "I2C0_IRQHandler test_h ?s = Some (Inr s2)"
    by (simp add: I2C0_IRQHandler_def irq_mstop_only)
  from mstop_effect [OF r] have quiet: "\<not> irq_pending I2C1 s2" and pm: "\<not> primask ?s"
    and d2: "get_sm I2C0 s2 = test_sm I2C0 m_stop 0 False"
    and st: "STATE (periph s2 I2C0) = 0"
    and tr: "filter is_scheduled (trace s2) = [Add_scheduled_event 8]"
    by (auto simp: irq_pending_def prim_defs test_defs get_sm_def put_sm_def reset_writes_def)
  from pend irq quiet pm have "take_interrupts test_h ?s = Some (Inr s2)"
    by (simp add: take_interrupts_def)
  with d2 st tr show ?thesis by blast
qed

text \<open>
  Claim C1. A call of \<open>i2c_init_sm\<close> made while the live descriptor of its peripheral is
  busy never returns, and however many passes of its wait loop are observed it is still
  waiting, with both live descriptors exactly as they were at entry: the copy has not been
  made. When the call returns, the live descriptor was not busy at entry and now holds
  the caller's descriptor with \<open>busy\<close> set, the live descriptor of the other peripheral
  is untouched, and a second call for the same peripheral made in that state does not
  return. The bounded run and the call have the same results, for \<open>i2c_init_sm\<close> and for
  the branch that holds the wait loop, whether interrupts are suppressed or not. A branch
  that is still waiting is in a state reached from its entry state through interrupt
  handlers alone, with the live descriptor busy; a branch that has ended made its copy in
  a state reached that way in which the live descriptor was not busy. The wait loop itself
  only ends in a state where the live descriptor is not busy. The ACK, NACK and
  byte-received handlers leave every \<open>busy\<close> flag as it is; the stop-detected handler
  returns only from \<open>m_stop\<close>, and then its descriptor is no longer busy.
\<close>

theorem live_descriptor_copied_only_when_ready:
  "(busy (get_sm (I2Cn d) s) \<longrightarrow>
      i2c_init_sm h d s = None
      \<and> (\<exists>w. i2c_init_sm_upto j h d s = Waiting w \<and> (\<forall>p. get_sm p w = get_sm p s)))
   \<and> (i2c_init_sm h d s = Some (Inr (d', s')) \<longrightarrow>
        \<not> busy (get_sm (I2Cn d) s) \<and> get_sm (I2Cn d) s' = d\<lparr>busy := True\<rparr>
        \<and> (\<forall>p. p \<noteq> I2Cn d \<longrightarrow> get_sm p s' = get_sm p s)
        \<and> (I2Cn d2 = I2Cn d \<longrightarrow> i2c_init_sm h d2 s' = None))
   \<and> ((i2c_init_sm h d s = Some r) = (\<exists>j. i2c_init_sm_upto j h d s = Ended r))
   \<and> ((init_branch h n d s = Some r0) = (\<exists>j. init_branch_upto j h n d s = Ended r0))
   \<and> (init_branch_upto j h n d s = Waiting s1 \<longrightarrow>
        busy (get_sm n s1) \<and> (\<exists>i\<le>j. run_n i (take_interrupts h) s = Some (Inr s1)))
   \<and> (init_branch_upto j h n d s = Ended (Inr s2) \<longrightarrow>
        (\<exists>i\<le>j. \<exists>w. run_n i (take_interrupts h) s = Some (Inr w) \<and> \<not> busy (get_sm n w)
           \<and> s2 = emit (NVIC_EnableIRQ n) ((put_sm n d w)\<lparr>nvic := (nvic w)(n := True)\<rparr>)))
   \<and> (busy_wait h n s = Some (Inr s3) \<longrightarrow> \<not> busy (get_sm n s3))
   \<and> (i2cn_ack_sm h n s = Some (Inr s4) \<or> i2cn_nack_sm h n s = Some (Inr s4)
        \<or> i2cn_rxdata_sm h n s = Some (Inr s4) \<longrightarrow> busy (get_sm m s4) = busy (get_sm m s))
   \<and> (i2cn_mstop_sm h n s = Some (Inr s5) \<longrightarrow>
        curr_state (get_sm n s) = m_stop \<and> \<not> busy (get_sm n s5))"
proof (intro conjI impI)
  assume "busy (get_sm (I2Cn d) s)"
  then show "i2c_init_sm h d s = None" by (rule i2c_init_sm_busy)
next
  assume b: "busy (get_sm (I2Cn d) s)"
  show "\<exists>w. i2c_init_sm_upto j h d s = Waiting w \<and> (\<forall>p. get_sm p w = get_sm p s)"
    by (simp add: i2c_init_sm_upto_busy [OF b] prim_defs)
next
  assume r: "i2c_init_sm h d s = Some (Inr (d', s'))"
  then show nb: "\<not> busy (get_sm (I2Cn d) s)" using i2c_init_sm_busy [of d s h] by auto
  from r show live: "get_sm (I2Cn d) s' = d\<lparr>busy := True\<rparr>"
    by (auto simp: i2c_init_sm_ready [OF nb] split: if_splits)
  from r show "\<forall>p. p \<noteq> I2Cn d \<longrightarrow> get_sm p s' = get_sm p s"
    by (auto simp: i2c_init_sm_ready [OF nb] split: if_splits)
  assume "I2Cn d2 = I2Cn d"
  with live have "busy (get_sm (I2Cn d2) s')" by simp
  then show "i2c_init_sm h d2 s' = None" by (rule i2c_init_sm_busy)
next
  show "(i2c_init_sm h d s = Some r) = (\<exists>j. i2c_init_sm_upto j h d s = Ended r)"
    by (rule i2c_init_sm_adequate)
next
  show "(init_branch h n d s = Some r0) = (\<exists>j. init_branch_upto j h n d s = Ended r0)"
    by (rule init_branch_adequate)
next
  assume "init_branch_upto j h n d s = Waiting s1"
  with init_branch_observed [of j h n d s s1]
  show "busy (get_sm n s1)" "\<exists>i\<le>j. run_n i (take_interrupts h) s = Some (Inr s1)"
    by simp_all
next
  assume "init_branch_upto j h n d s = Ended (Inr s2)"
  with init_branch_observed [of j h n d s _ s2]
  show "\<exists>i\<le>j. \<exists>w. run_n i (take_interrupts h) s = Some (Inr w) \<and> \<not> busy (get_sm n w)
           \<and> s2 = emit (NVIC_EnableIRQ n) ((put_sm n d w)\<lparr>nvic := (nvic w)(n := True)\<rparr>)"
    by simp
next
  assume "busy_wait h n s = Some (Inr s3)"
  from busy_wait_exit [OF this] show "\<not> busy (get_sm n s3)" by simp
next
  assume "i2cn_ack_sm h n s = Some (Inr s4) \<or> i2cn_nack_sm h n s = Some (Inr s4)
        \<or> i2cn_rxdata_sm h n s = Some (Inr s4)"
  then show "busy (get_sm m s4) = busy (get_sm m s)"
    using ack_keeps_busy nack_keeps_busy rxdata_keeps_busy by blast
next
  assume r: "i2cn_mstop_sm h n s = Some (Inr s5)"
  from mstop_clears_busy [OF r] show "curr_state (get_sm n s) = m_stop" by simp
  from mstop_clears_busy [OF r] show "\<not> busy (get_sm n s5)" by simp
qed

theorem live_descriptor_copied_only_when_ready_witness:
  "(i2c_init_sm test_h (test_sm I2C0 req_res 2 False)
        (test_sys (test_sm I2C0 m_stop 0 True) [0x100] []) = None
     \<and> (\<exists>w. i2c_init_sm_upto 3 test_h (test_sm I2C0 req_res 2 False)
               (test_sys (test_sm I2C0 m_stop 0 True) [0x100] []) = Waiting w
           \<and> get_sm I2C0 w = test_sm I2C0 m_stop 0 True))
   \<and> (\<exists>d' s'. i2c_init_sm test_h (test_sm I2C0 req_res 2 False)
                 (test_sys (test_sm I2C0 m_stop 0 False) [] []) = Some (Inr (d', s'))
         \<and> get_sm I2C0 s' = test_sm I2C0 req_res 2 True
         \<and> i2c_init_sm test_h (test_sm I2C0 req_res 1 False) s' = None)
   \<and> (\<exists>w. init_branch_upto 0 test_h I2C0 (test_sm I2C0 req_res 2 True)
             (test_sys (test_sm I2C0 m_stop 0 True) [0x100] []) = Waiting w
         \<and> get_sm I2C0 w = test_sm I2C0 m_stop 0 True)
   \<and> (\<exists>s2. init_branch_upto 1 test_h I2C0 (test_sm I2C0 req_res 2 True)
              (test_sys (test_sm I2C0 m_stop 0 True) [0x100] []) = Ended (Inr s2)
         \<and> get_sm I2C0 s2 = test_sm I2C0 req_res 2 True
         \<and> filter is_scheduled (trace s2) = [Add_scheduled_event 8])
   \<and> (\<exists>s3. busy_wait test_h I2C0 (test_sys (test_sm I2C0 m_stop 0 True) [0x100] []) = Some (Inr s3)
         \<and> \<not> busy (get_sm I2C0 s3))
   \<and> (\<exists>s4. i2cn_ack_sm test_h I2C0 (test_sys (test_sm I2C0 req_res 2 True) [] []) = Some (Inr s4)
         \<and> busy (get_sm I2C0 s4))
   \<and> (\<exists>s5. i2cn_mstop_sm test_h I2C0 (test_sys (test_sm I2C0 m_stop 0 True) [] []) = Some (Inr s5)
         \<and> \<not> busy (get_sm I2C0 s5))"
proof (intro conjI)
  let ?d = "test_sm I2C0 req_res 2 False"
  let ?s = "test_sys (test_sm I2C0 m_stop 0 True) [0x100] []"
  note thm1 = live_descriptor_copied_only_when_ready [where d = ?d and s = ?s and h = test_h
      and j = 3, THEN conjunct1]
  have b: "busy (get_sm (I2Cn ?d) ?s)" by (simp add: test_sm_def)
  from thm1 b show "i2c_init_sm test_h ?d ?s = None" by blast
  from thm1 b obtain w where w: "i2c_init_sm_upto 3 test_h ?d ?s = Waiting w"
    "\<forall>p. get_sm p w = get_sm p ?s" by blast
  from w(2) have "get_sm I2C0 w = test_sm I2C0 m_stop 0 True" by simp
  with w(1) show "\<exists>w. i2c_init_sm_upto 3 test_h ?d ?s = Waiting w
           \<and> get_sm I2C0 w = test_sm I2C0 m_stop 0 True" by blast
next
  let ?d = "test_sm I2C0 req_res 2 False" and ?s = "test_sys (test_sm I2C0 m_stop 0 False) [] []"
  have "\<not> busy (get_sm (I2Cn ?d) ?s)" by (simp add: test_sm_def)
  from i2c_init_sm_ready [OF this, of test_h] obtain d' s' where
    r: "i2c_init_sm test_h ?d ?s = Some (Inr (d', s'))"
    by (simp add: test_defs hw_defs)
  from live_descriptor_copied_only_when_ready [where d = ?d and s = ?s and h = test_h
      and d' = d' and s' = s' and ?d2.0 = "test_sm I2C0 req_res 1 False",
      THEN conjunct2, THEN conjunct1] r
  show "\<exists>d' s'. i2c_init_sm test_h ?d ?s = Some (Inr (d', s'))
         \<and> get_sm I2C0 s' = test_sm I2C0 req_res 2 True
         \<and> i2c_init_sm test_h (test_sm I2C0 req_res 1 False) s' = None"
    by (simp add: test_sm_def)
next
  let ?d = "test_sm I2C0 req_res 2 True"
  let ?s = "test_sys (test_sm I2C0 m_stop 0 True) [0x100] []"
  have r: "init_branch_upto 0 test_h I2C0 ?d ?s = Waiting ?s"
    by (simp add: init_branch_upto_def test_sm_def)
  from live_descriptor_copied_only_when_ready [where d = ?d and s = ?s and h = test_h
      and j = 0 and n = I2C0 and ?s1.0 = ?s,
      THEN conjunct2, THEN conjunct2, THEN conjunct2, THEN conjunct2, THEN conjunct1] r
  have "busy (get_sm I2C0 ?s)" by blast
  with r show "\<exists>w. init_branch_upto 0 test_h I2C0 ?d ?s = Waiting w
         \<and> get_sm I2C0 w = test_sm I2C0 m_stop 0 True"
    by simp
next
  let ?d = "test_sm I2C0 req_res 2 True"
  let ?s = "test_sys (test_sm I2C0 m_stop 0 True) [0x100] []"
  from pending_stop_taken obtain st where
    st: "take_interrupts test_h ?s = Some (Inr st)" "get_sm I2C0 st = test_sm I2C0 m_stop 0 False"
      "STATE (periph st I2C0) = 0" "filter is_scheduled (trace st) = [Add_scheduled_event 8]"
    by blast
  have b: "busy (get_sm I2C0 ?s)" by (simp add: test_sm_def)
  have nb: "\<not> busy (get_sm I2C0 st)" by (simp add: st(2) test_sm_def)
  from b nb st(1) have "busy_wait_upto (Suc 0) test_h I2C0 ?s = Ended (Inr st)"
    by simp
  with st(3) obtain s2 where r: "init_branch_upto 1 test_h I2C0 ?d ?s = Ended (Inr s2)"
    by (simp add: init_branch_upto_def hw_defs)
  from live_descriptor_copied_only_when_ready [where d = ?d and s = ?s and h = test_h
      and j = 1 and n = I2C0 and ?s2.0 = s2,
      THEN conjunct2, THEN conjunct2, THEN conjunct2, THEN conjunct2, THEN conjunct2,
      THEN conjunct1] r
  obtain i w where iw: "i \<le> 1" "run_n i (take_interrupts test_h) ?s = Some (Inr w)"
    "\<not> busy (get_sm I2C0 w)"
    "s2 = emit (NVIC_EnableIRQ I2C0) ((put_sm I2C0 ?d w)\<lparr>nvic := (nvic w)(I2C0 := True)\<rparr>)"
    by blast
  from iw(1) have "i = 0 \<or> i = Suc 0" by auto
  with iw(2,3) b st(1) have "w = st" by auto
  with iw(4) st(4) have "get_sm I2C0 s2 = ?d" "filter is_scheduled (trace s2) = [Add_scheduled_event 8]"
    by (simp_all add: emit_def get_sm_def put_sm_def)
  with r show "\<exists>s2. init_branch_upto 1 test_h I2C0 ?d ?s = Ended (Inr s2)
         \<and> get_sm I2C0 s2 = test_sm I2C0 req_res 2 True
         \<and> filter is_scheduled (trace s2) = [Add_scheduled_event 8]"
    by blast
next
  let ?s = "test_sys (test_sm I2C0 m_stop 0 True) [0x100] []"
  from pending_stop_taken obtain st where
    st: "take_interrupts test_h ?s = Some (Inr st)" "get_sm I2C0 st = test_sm I2C0 m_stop 0 False"
    by blast
  have b: "busy (get_sm I2C0 ?s)" by (simp add: test_sm_def)
  have nb: "\<not> busy (get_sm I2C0 st)" by (simp add: st(2) test_sm_def)
  from b st(1) have r: "busy_wait test_h I2C0 ?s = Some (Inr st)"
    by (subst busy_wait.simps) (simp add: busy_wait_ready [OF nb])
  from live_descriptor_copied_only_when_ready [where s = ?s and h = test_h
      and n = I2C0 and ?s3.0 = st,
      THEN conjunct2, THEN conjunct2, THEN conjunct2, THEN conjunct2, THEN conjunct2,
      THEN conjunct2, THEN conjunct1] r
  show "\<exists>s3. busy_wait test_h I2C0 ?s = Some (Inr s3) \<and> \<not> busy (get_sm I2C0 s3)"
    by blast
next
  let ?s = "test_sys (test_sm I2C0 req_res 2 True) [] []"
  obtain s4 where r: "i2cn_ack_sm test_h I2C0 ?s = Some (Inr s4)"
    by (simp add: ack_req_res test_sm_def)
  from live_descriptor_copied_only_when_ready [where s = ?s and h = test_h
      and n = I2C0 and ?s4.0 = s4 and m = I2C0,
      THEN conjunct2, THEN conjunct2, THEN conjunct2, THEN conjunct2, THEN conjunct2,
      THEN conjunct2, THEN conjunct2, THEN conjunct1] r
  show "\<exists>s4. i2cn_ack_sm test_h I2C0 ?s = Some (Inr s4) \<and> busy (get_sm I2C0 s4)"
    by (simp add: test_sm_def)
next
  let ?s = "test_sys (test_sm I2C0 m_stop 0 True) [] []"
  have "\<exists>s5. i2cn_mstop_sm test_h I2C0 ?s = Some (Inr s5)"
    by (rule mstop_returns [where k = 0]) (simp_all add: test_defs hw_defs get_sm_def)
  then obtain s5 where r: "i2cn_mstop_sm test_h I2C0 ?s = Some (Inr s5)"
    by blast
  from live_descriptor_copied_only_when_ready [where s = ?s and h = test_h
      and n = I2C0 and ?s5.0 = s5,
      THEN conjunct2, THEN conjunct2, THEN conjunct2, THEN conjunct2, THEN conjunct2,
      THEN conjunct2, THEN conjunct2, THEN conjunct2] r
  show "\<exists>s5. i2cn_mstop_sm test_h I2C0 ?s = Some (Inr s5) \<and> \<not> busy (get_sm I2C0 s5)"
    by simp
qed

text \<open>
  Claim C3, evaluated. The live descriptor of \<open>I2C0\<close> is busy in \<open>m_stop\<close> and its
  stop-detected interrupt is pending. The wait loop run with interrupts enabled ends: the
  interrupt is taken and the completion path clears \<open>busy\<close>. The same loop run with
  interrupts suppressed never ends, and that is how \<open>i2c_init_sm\<close> runs it, after
  \<open>CORE_ENTER_CRITICAL\<close>: the call does not return.
\<close>

theorem busy_wait_inside_critical_section:
  "(\<exists>s'. busy_wait test_h I2C0 (test_sys (test_sm I2C0 m_stop 0 True) [0x100] []) = Some (Inr s')
        \<and> \<not> busy (get_sm I2C0 s'))
   \<and> busy_wait test_h I2C0 ((test_sys (test_sm I2C0 m_stop 0 True) [0x100] [])\<lparr>primask := True\<rparr>) = None
   \<and> i2c_init_sm test_h (test_sm I2C0 req_res 2 False)
        (test_sys (test_sm I2C0 m_stop 0 True) [0x100] []) = None"
proof (intro conjI)
  let ?s = "test_sys (test_sm I2C0 m_stop 0 True) [0x100] []"
  let ?s1 = "write_IFC I2C0 I2C_IF_MSTOP (next_IF I2C0 ?s)"
  have pend: "irq_pending I2C0 ?s"
    by (simp add: irq_pending_def peek_IF_def test_defs)
  have flags: "peek_IF I2C0 ?s AND IEN (periph ?s I2C0) = I2C_IF_MSTOP"
    by (simp add: peek_IF_def test_defs hw_defs)
  have "\<exists>s2. i2cn_mstop_sm test_h I2C0 ?s1 = Some (Inr s2)"
    by (rule mstop_returns [where k = 0]) (simp_all add: prim_defs test_defs hw_defs get_sm_def)
  then obtain s2 where r: "i2cn_mstop_sm test_h I2C0 ?s1 = Some (Inr s2)" by blast
  with flags have irq: "I2C0_IRQHandler test_h ?s = Some (Inr s2)"
    by (simp add: I2C0_IRQHandler_def irq_mstop_only)
  from mstop_effect [OF r] have nb: "\<not> busy (get_sm I2C0 s2)" and quiet: "\<not> irq_pending I2C1 s2"
    and pm: "\<not> primask ?s"
    by (auto simp: irq_pending_def prim_defs test_sys_def)
  from pend irq quiet pm have "take_interrupts test_h ?s = Some (Inr s2)"
    by (simp add: take_interrupts_def)
  moreover have "busy (get_sm I2C0 ?s)" by (simp add: test_sm_def)
  ultimately have "busy_wait test_h I2C0 ?s = Some (Inr s2)"
    by (subst busy_wait.simps) (simp add: busy_wait_ready [OF nb])
  with nb show "\<exists>s'. busy_wait test_h I2C0 ?s = Some (Inr s') \<and> \<not> busy (get_sm I2C0 s')"
    by blast
next
  show "busy_wait test_h I2C0 ((test_sys (test_sm I2C0 m_stop 0 True) [0x100] [])\<lparr>primask := True\<rparr>) = None"
    by (rule busy_wait_masked) (simp_all add: test_sm_def)
next
  show "i2c_init_sm test_h (test_sm I2C0 req_res 2 False)
        (test_sys (test_sm I2C0 m_stop 0 True) [0x100] []) = None"
    by (rule i2c_init_sm_busy) (simp add: test_sm_def)
qed

section \<open>Receiving bytes\<close>

lemma small_count: "1 \<le> k \<Longrightarrow> k \<le> 4 \<Longrightarrow> k = 1 \<or> k = 2 \<or> k = 3 \<or> k = (4::u32)"
  by unat_arith

lemma rxdata_step:
  assumes st: "curr_state (get_sm n s) = data_rx"
    and k: "num_bytes (get_sm n s) = k" "1 \<le> k" "k \<le> 4"
    and sh: "MSBYTE_SHIFT h = 8"
  shows "\<exists>s'. i2cn_rxdata_sm h n s = Some (Inr s')
     \<and> get_sm n s' = (get_sm n s)\<lparr>num_bytes := k - 1, curr_state := (if k = 1 then m_stop else data_rx)\<rparr>
     \<and> (\<forall>m. m \<noteq> n \<longrightarrow> get_sm m s' = get_sm m s)
     \<and> mem s' = (mem s)(data (get_sm n s) := mem s (data (get_sm n s))
            OR push_bit ((unat k - 1) * 8) (peek_RXDATA (rxdata (get_sm n s)) s))
     \<and> periph s' = periph (next_RXDATA (rxdata (get_sm n s)) s)
     \<and> primask s' = primask s \<and> nvic s' = nvic s
     \<and> trace s' = trace s @
          (if k = 1 then [Write_CMD (I2Cn (get_sm n s)) I2C_CMD_NACK, Write_CMD (I2Cn (get_sm n s)) I2C_CMD_STOP]
           else [Write_CMD (I2Cn (get_sm n s)) I2C_CMD_ACK]) @ [Timer_delay (I2C_80MS_DELAY h)]"
proof -
  from small_count[OF k(2,3)] consider "k = 1" | "k = 2" | "k = 3" | "k = 4" by blast
  then show ?thesis
  proof cases
    case 1
    then show ?thesis using st k(1) sh
      by (simp add: i2cn_rxdata_sm_def prim_defs shl32_def peek_RXDATA_def Let_def)
  next
    case 2
    then show ?thesis using st k(1) sh
      by (simp add: i2cn_rxdata_sm_def prim_defs shl32_def peek_RXDATA_def Let_def)
  next
    case 3
    then show ?thesis using st k(1) sh
      by (simp add: i2cn_rxdata_sm_def prim_defs shl32_def peek_RXDATA_def Let_def)
  next
    case 4
    then show ?thesis using st k(1) sh
      by (simp add: i2cn_rxdata_sm_def prim_defs shl32_def peek_RXDATA_def Let_def)
  qed
qed

lemma of_nat_small:
  assumes "1 \<le> k" "k \<le> 4"
  shows "(1::u32) \<le> of_nat k" "(of_nat k :: u32) \<le> 4" "unat (of_nat k :: u32) = k"
    "(of_nat k - 1 :: u32) = of_nat (k - 1)" "((of_nat k :: u32) = 1) = (k = 1)"
proof -
  from assms consider "k = 1" | "k = 2" | "k = 3" | "k = 4" by linarith
  then have "(1::u32) \<le> of_nat k \<and> (of_nat k :: u32) \<le> 4 \<and> unat (of_nat k :: u32) = k
    \<and> (of_nat k - 1 :: u32) = of_nat (k - 1) \<and> ((of_nat k :: u32) = 1) = (k = 1)"
    by cases simp_all
  then show "(1::u32) \<le> of_nat k" "(of_nat k :: u32) \<le> 4" "unat (of_nat k :: u32) = k"
    "(of_nat k - 1 :: u32) = of_nat (k - 1)" "((of_nat k :: u32) = 1) = (k = 1)"
    by simp_all
qed

lemma rx_bytes_Suc:
  "rx_bytes p (Suc j) s = peek_RXDATA p s # rx_bytes p j (next_RXDATA p s)"
  by (simp add: rx_bytes_def peek_RXDATA_def next_RXDATA_def map_upt_Suc del: upt_Suc)

lemma rx_bytes_periph: "periph s1 = periph s2 \<Longrightarrow> rx_bytes p j s1 = rx_bytes p j s2"
  by (simp add: rx_bytes_def)

lemma rx_run:
  assumes sh: "MSBYTE_SHIFT h = 8"
  shows "k \<le> 4 \<Longrightarrow> num_bytes (get_sm n s) = of_nat k \<Longrightarrow>
     curr_state (get_sm n s) = (if k = 0 then m_stop else data_rx) \<Longrightarrow>
     \<exists>s'. run_n j (i2cn_rxdata_sm h n) s = Some (Inr s')
       \<and> get_sm n s' = (get_sm n s)\<lparr>num_bytes := of_nat (k - j),
            curr_state := (if k \<le> j then m_stop else data_rx)\<rparr>
       \<and> trace s' = trace s @ rx_trace (I2Cn (get_sm n s)) (I2C_80MS_DELAY h) k j
       \<and> mem s' = (mem s)(data (get_sm n s) := mem s (data (get_sm n s))
            OR placed k (rx_bytes (rxdata (get_sm n s)) (min j k) s))"
proof (induction j arbitrary: s k)
  case 0
  then show ?case by (auto simp: rx_bytes_def)
next
  case (Suc j)
  let ?d = "get_sm n s"
  show ?case
  proof (cases "k = 0")
    case True
    with Suc.prems have idle: "curr_state ?d \<noteq> data_rx" by simp
    let ?s1 = "s\<lparr>trace := trace s @ [Timer_delay (I2C_80MS_DELAY h)]\<rparr>"
    have "\<exists>s'. run_n j (i2cn_rxdata_sm h n) ?s1 = Some (Inr s')
       \<and> get_sm n s' = (get_sm n ?s1)\<lparr>num_bytes := of_nat (0 - j),
            curr_state := (if 0 \<le> j then m_stop else data_rx)\<rparr>
       \<and> trace s' = trace ?s1 @ rx_trace (I2Cn (get_sm n ?s1)) (I2C_80MS_DELAY h) 0 j
       \<and> mem s' = (mem ?s1)(data (get_sm n ?s1) := mem ?s1 (data (get_sm n ?s1))
            OR placed 0 (rx_bytes (rxdata (get_sm n ?s1)) (min j 0) ?s1))"
      by (rule Suc.IH) (use Suc.prems True in simp_all)
    then show ?thesis using True by (auto simp: rxdata_idle[OF idle] rx_bytes_def)
  next
    case False
    with Suc.prems have k: "1 \<le> k" "k \<le> 4" and st: "curr_state ?d = data_rx" by simp_all
    note w = of_nat_small[OF k]
    from rxdata_step[OF st Suc.prems(2) w(1,2) sh] w(3,4,5) obtain s1 where
      run: "i2cn_rxdata_sm h n s = Some (Inr s1)"
      and d1: "get_sm n s1 = ?d\<lparr>num_bytes := of_nat (k - 1), curr_state := (if k = 1 then m_stop else data_rx)\<rparr>"
      and m1: "mem s1 = (mem s)(data ?d := mem s (data ?d)
            OR push_bit ((k - 1) * 8) (peek_RXDATA (rxdata ?d) s))"
      and p1: "periph s1 = periph (next_RXDATA (rxdata ?d) s)"
      and t1: "trace s1 = trace s @
          (if k = 1 then [Write_CMD (I2Cn ?d) I2C_CMD_NACK, Write_CMD (I2Cn ?d) I2C_CMD_STOP]
           else [Write_CMD (I2Cn ?d) I2C_CMD_ACK]) @ [Timer_delay (I2C_80MS_DELAY h)]"
      by auto
    have "\<exists>s'. run_n j (i2cn_rxdata_sm h n) s1 = Some (Inr s')
       \<and> get_sm n s' = (get_sm n s1)\<lparr>num_bytes := of_nat (k - 1 - j),
            curr_state := (if k - 1 \<le> j then m_stop else data_rx)\<rparr>
       \<and> trace s' = trace s1 @ rx_trace (I2Cn (get_sm n s1)) (I2C_80MS_DELAY h) (k - 1) j
       \<and> mem s' = (mem s1)(data (get_sm n s1) := mem s1 (data (get_sm n s1))
            OR placed (k - 1) (rx_bytes (rxdata (get_sm n s1)) (min j (k - 1)) s1))"
      by (rule Suc.IH) (use k d1 in auto)
    then obtain s' where s': "run_n j (i2cn_rxdata_sm h n) s1 = Some (Inr s')"
       "get_sm n s' = (get_sm n s1)\<lparr>num_bytes := of_nat (k - 1 - j),
            curr_state := (if k - 1 \<le> j then m_stop else data_rx)\<rparr>"
       "trace s' = trace s1 @ rx_trace (I2Cn (get_sm n s1)) (I2C_80MS_DELAY h) (k - 1) j"
       "mem s' = (mem s1)(data (get_sm n s1) := mem s1 (data (get_sm n s1))
            OR placed (k - 1) (rx_bytes (rxdata (get_sm n s1)) (min j (k - 1)) s1))"
      by blast
    have mn: "min (Suc j) k = Suc (min j (k - 1))" using k by simp
    have rb: "rx_bytes (rxdata ?d) (min j (k - 1)) s1 = rx_bytes (rxdata ?d) (min j (k - 1)) (next_RXDATA (rxdata ?d) s)"
      by (rule rx_bytes_periph) (rule p1)
    have "run_n (Suc j) (i2cn_rxdata_sm h n) s = Some (Inr s')" using run s'(1) by simp
    moreover have "get_sm n s' = ?d\<lparr>num_bytes := of_nat (k - Suc j),
            curr_state := (if k \<le> Suc j then m_stop else data_rx)\<rparr>"
      using s'(2) d1 k by auto
    moreover have "trace s' = trace s @ rx_trace (I2Cn ?d) (I2C_80MS_DELAY h) k (Suc j)"
      using s'(3) t1 d1 k False by auto
    moreover have "mem s' = (mem s)(data ?d := mem s (data ?d)
            OR placed k (rx_bytes (rxdata ?d) (min (Suc j) k) s))"
      unfolding mn rx_bytes_Suc using s'(4) d1 m1 rb by (simp add: ac_simps)
    ultimately show ?thesis by blast
  qed
qed

lemma placed_assemble_aux:
  "foldl (\<lambda>acc b. push_bit 8 acc OR b) a bs = push_bit (length bs * 8) a OR placed (length bs) bs"
proof (induction bs arbitrary: a)
  case Nil
  then show ?case by simp
next
  case (Cons b bs)
  have "foldl (\<lambda>acc b. push_bit 8 acc OR b) (push_bit 8 a OR b) bs =
      push_bit (length bs * 8) (push_bit 8 a OR b) OR placed (length bs) bs"
    by (rule Cons.IH)
  also have "\<dots> = push_bit (length (b # bs) * 8) a OR placed (length (b # bs)) (b # bs)"
    by (simp add: push_bit_or push_bit_push_bit or.assoc add.commute)
  finally show ?case by simp
qed

lemma placed_assemble: "placed (length bs) bs = assemble bs"
  by (simp add: assemble_def placed_assemble_aux)

lemma byte_lane:
  "n \<le> 24 \<Longrightarrow> take_bit 8 (drop_bit n (m OR push_bit n (x::u32))) = take_bit 8 (drop_bit n m) OR take_bit 8 x"
  by (rule bit_eqI) (auto simp: bit_simps)

lemma or_eq_iff: "((x::u32) OR p = p) = (x AND NOT p = 0)"
  by (auto simp: bit_eq_iff bit_simps)

lemma and_or_self: "(x::u32) AND (x OR p) = x"
  by (auto simp: bit_eq_iff bit_simps)

lemma other_lane:
  assumes "i \<noteq> j" and "take_bit 8 x = (x::u32)"
  shows "take_bit 8 (drop_bit (i * 8) (m OR push_bit (j * 8) x)) = take_bit 8 (drop_bit (i * 8) m)"
proof (rule bit_eqI)
  fix n
  have hi: "\<And>q. 8 \<le> q \<Longrightarrow> \<not> bit x q"
    using assms(2) by (metis bit_take_bit_iff not_le)
  show "bit (take_bit 8 (drop_bit (i * 8) (m OR push_bit (j * 8) x))) n
      = bit (take_bit 8 (drop_bit (i * 8) m)) n"
  proof (cases "n < 8")
    case False
    then show ?thesis by (simp add: bit_simps)
  next
    case True
    have "\<not> (j * 8 \<le> i * 8 + n \<and> bit x (i * 8 + n - j * 8))"
    proof (cases "i < j")
      case True
      with \<open>n < 8\<close> have "i * 8 + n < j * 8" by arith
      then show ?thesis by simp
    next
      case False
      with assms(1) have "j < i" by simp
      then have "8 \<le> i * 8 + n - j * 8" by arith
      from hi [OF this] show ?thesis by simp
    qed
    then show ?thesis using True by (auto simp: bit_simps)
  qed
qed

text \<open>
  Claim C4, amended. With \<open>k\<close> bytes still expected, \<open>k\<close> from 1 to the four bytes of the
  destination word, the byte-received handler returns, ORs the received value shifted
  left by \<open>(k - 1) * 8\<close> bits into the destination word and leaves the rest of the memory
  alone. Byte \<open>k - 1\<close> of the destination, counted from the low end, is its old value OR
  the received byte, hence the received byte when it was zero before; when the received
  value is a byte, every other byte of the destination is unchanged. The \<open>k\<close> events that
  are still expected return and leave the destination as its contents at the start OR
  the bytes assembled most significant byte first.
\<close>

theorem rxdata_stores_byte_msb_first:
  assumes "curr_state (get_sm n s) = data_rx" and "num_bytes (get_sm n s) = k"
    and "1 \<le> k" and "k \<le> 4" and "MSBYTE_SHIFT h = 8"
  shows "\<exists>s'. i2cn_rxdata_sm h n s = Some (Inr s')
     \<and> mem s' (data (get_sm n s)) = mem s (data (get_sm n s))
           OR push_bit ((unat k - 1) * 8) (peek_RXDATA (rxdata (get_sm n s)) s)
     \<and> (\<forall>a. a \<noteq> data (get_sm n s) \<longrightarrow> mem s' a = mem s a)
     \<and> take_bit 8 (drop_bit ((unat k - 1) * 8) (mem s' (data (get_sm n s))))
         = take_bit 8 (drop_bit ((unat k - 1) * 8) (mem s (data (get_sm n s))))
           OR take_bit 8 (peek_RXDATA (rxdata (get_sm n s)) s)
     \<and> (take_bit 8 (drop_bit ((unat k - 1) * 8) (mem s (data (get_sm n s)))) = 0 \<longrightarrow>
          take_bit 8 (drop_bit ((unat k - 1) * 8) (mem s' (data (get_sm n s))))
            = take_bit 8 (peek_RXDATA (rxdata (get_sm n s)) s))
     \<and> (take_bit 8 (peek_RXDATA (rxdata (get_sm n s)) s) = peek_RXDATA (rxdata (get_sm n s)) s \<longrightarrow>
          (\<forall>i. i \<noteq> unat k - 1 \<longrightarrow>
             take_bit 8 (drop_bit (i * 8) (mem s' (data (get_sm n s))))
               = take_bit 8 (drop_bit (i * 8) (mem s (data (get_sm n s))))))
     \<and> (\<exists>s''. run_n (unat k) (i2cn_rxdata_sm h n) s = Some (Inr s'')
          \<and> mem s'' (data (get_sm n s)) = mem s (data (get_sm n s))
               OR assemble (rx_bytes (rxdata (get_sm n s)) (unat k) s))"
proof -
  let ?a = "data (get_sm n s)" and ?rx = "peek_RXDATA (rxdata (get_sm n s)) s"
  from rxdata_step [OF assms] obtain s' where
    r: "i2cn_rxdata_sm h n s = Some (Inr s')"
    and m: "mem s' = (mem s)(?a := mem s ?a OR push_bit ((unat k - 1) * 8) ?rx)"
    by blast
  from assms(3,4) have u: "unat k \<le> 4" "unat k \<noteq> 0" by unat_arith+
  then have "(unat k - 1) * 8 \<le> 24" by simp
  note lane = byte_lane [OF this, of "mem s ?a" ?rx]
  have st': "curr_state (get_sm n s) = (if unat k = 0 then m_stop else data_rx)"
    using assms(1) u(2) by simp
  have nb: "num_bytes (get_sm n s) = of_nat (unat k)" using assms(2) by simp
  have len: "length (rx_bytes (rxdata (get_sm n s)) (unat k) s) = unat k" by (simp add: rx_bytes_def)
  from rx_run [OF assms(5) u(1) nb st', of "unat k"] obtain s'' where
    r2: "run_n (unat k) (i2cn_rxdata_sm h n) s = Some (Inr s'')"
    and m2: "mem s'' = (mem s)(?a := mem s ?a
            OR placed (unat k) (rx_bytes (rxdata (get_sm n s)) (min (unat k) (unat k)) s))"
    by blast
  from m2 placed_assemble [of "rx_bytes (rxdata (get_sm n s)) (unat k) s"] len
  have m3: "mem s'' ?a = mem s ?a OR assemble (rx_bytes (rxdata (get_sm n s)) (unat k) s)"
    by simp
  have c1: "mem s' ?a = mem s ?a OR push_bit ((unat k - 1) * 8) ?rx" using m by simp
  have c2: "\<forall>a. a \<noteq> ?a \<longrightarrow> mem s' a = mem s a" using m by simp
  have c3: "take_bit 8 (drop_bit ((unat k - 1) * 8) (mem s' ?a))
         = take_bit 8 (drop_bit ((unat k - 1) * 8) (mem s ?a)) OR take_bit 8 ?rx"
    using lane c1 by simp
  have c4: "take_bit 8 (drop_bit ((unat k - 1) * 8) (mem s ?a)) = 0 \<longrightarrow>
          take_bit 8 (drop_bit ((unat k - 1) * 8) (mem s' ?a)) = take_bit 8 ?rx"
    using c3 by simp
  have c5: "take_bit 8 ?rx = ?rx \<longrightarrow>
          (\<forall>i. i \<noteq> unat k - 1 \<longrightarrow>
             take_bit 8 (drop_bit (i * 8) (mem s' ?a)) = take_bit 8 (drop_bit (i * 8) (mem s ?a)))"
    unfolding c1 using other_lane by blast
  from r c1 c2 c3 c4 c5 r2 m3 show ?thesis by blast
qed

theorem rxdata_stores_byte_msb_first_witness:
  "\<exists>s'. i2cn_rxdata_sm test_h I2C0 (test_sys (test_sm I2C0 data_rx 2 True) [] [0xAB, 0x12]) = Some (Inr s')
     \<and> mem s' 0 = 0xAB00 \<and> mem s' 1 = 0 \<and> take_bit 8 (drop_bit 8 (mem s' 0)) = 0xAB"
proof -
  let ?s = "test_sys (test_sm I2C0 data_rx 2 True) [] [0xAB, 0x12]"
  have "curr_state (get_sm I2C0 ?s) = data_rx" "num_bytes (get_sm I2C0 ?s) = 2"
    "1 \<le> (2::u32)" "(2::u32) \<le> 4" "MSBYTE_SHIFT test_h = 8"
    by (simp_all add: test_sm_def test_h_def)
  from rxdata_stores_byte_msb_first [OF this] obtain s' where
    r: "i2cn_rxdata_sm test_h I2C0 ?s = Some (Inr s')"
    and m: "mem s' (data (get_sm I2C0 ?s)) = mem ?s (data (get_sm I2C0 ?s))
           OR push_bit ((unat (2::u32) - 1) * 8) (peek_RXDATA (rxdata (get_sm I2C0 ?s)) ?s)"
    and o: "\<forall>a. a \<noteq> data (get_sm I2C0 ?s) \<longrightarrow> mem s' a = mem ?s a"
    and l: "take_bit 8 (drop_bit ((unat (2::u32) - 1) * 8) (mem ?s (data (get_sm I2C0 ?s)))) = 0 \<longrightarrow>
          take_bit 8 (drop_bit ((unat (2::u32) - 1) * 8) (mem s' (data (get_sm I2C0 ?s))))
            = take_bit 8 (peek_RXDATA (rxdata (get_sm I2C0 ?s)) ?s)"
    by blast
  have d: "data (get_sm I2C0 ?s) = 0" "mem ?s = (\<lambda>_. 0)"
    "peek_RXDATA (rxdata (get_sm I2C0 ?s)) ?s = 0xAB"
    by (simp_all add: test_defs peek_RXDATA_def get_sm_def)
  from m have "mem s' 0 = 0xAB00" unfolding d by simp
  moreover from o have "mem s' 1 = 0" unfolding d by simp
  moreover from l have "take_bit 8 (drop_bit 8 (mem s' 0)) = 0xAB" unfolding d by simp
  ultimately show ?thesis using r by blast
qed

text \<open>
  Claim C4 as stated fails in two ways. With five bytes still expected the shift is by 32
  bits, which is undefined on the 32-bit operand, and nothing is stored. With two bytes
  still expected and a destination that holds \<open>0x5400\<close>, the byte \<open>0xAB\<close> is not what bits 8
  to 15 hold afterwards: they read \<open>0xFF\<close>, the OR of what was there and the byte.
\<close>

theorem rxdata_fifth_byte_counterexample:
  "i2cn_rxdata_sm test_h I2C0 (test_sys (test_sm I2C0 data_rx 5 True) [] [0xAB])
       = Some (Inl UndefinedShift)
   \<and> (\<exists>s'. i2cn_rxdata_sm test_h I2C0
              ((test_sys (test_sm I2C0 data_rx 2 True) [] [0xAB])\<lparr>mem := (\<lambda>_. 0x5400)\<rparr>)
            = Some (Inr s')
         \<and> take_bit 8 (drop_bit 8 (mem s' 0)) = 0xFF)"
proof
  show "i2cn_rxdata_sm test_h I2C0 (test_sys (test_sm I2C0 data_rx 5 True) [] [0xAB])
       = Some (Inl UndefinedShift)"
    by (simp add: i2cn_rxdata_sm_def prim_defs shl32_def Let_def test_sm_def test_h_def)
next
  let ?s = "(test_sys (test_sm I2C0 data_rx 2 True) [] [0xAB])\<lparr>mem := (\<lambda>_. 0x5400)\<rparr>"
  have "curr_state (get_sm I2C0 ?s) = data_rx" "num_bytes (get_sm I2C0 ?s) = 2"
    "1 \<le> (2::u32)" "(2::u32) \<le> 4" "MSBYTE_SHIFT test_h = 8"
    by (simp_all add: test_sm_def test_h_def)
  from rxdata_step [OF this] obtain s' where
    r: "i2cn_rxdata_sm test_h I2C0 ?s = Some (Inr s')"
    and m: "mem s' = (mem ?s)(data (get_sm I2C0 ?s) := mem ?s (data (get_sm I2C0 ?s))
            OR push_bit ((unat (2::u32) - 1) * 8) (peek_RXDATA (rxdata (get_sm I2C0 ?s)) ?s))"
    by blast
  have d: "data (get_sm I2C0 ?s) = 0" "mem ?s = (\<lambda>_. 0x5400)"
    "peek_RXDATA (rxdata (get_sm I2C0 ?s)) ?s = 0xAB"
    by (simp_all add: test_defs peek_RXDATA_def get_sm_def)
  from m have "mem s' 0 = 0xFF00" unfolding d by simp
  then have "take_bit 8 (drop_bit 8 (mem s' 0)) = 0xFF" by simp
  with r show "\<exists>s'. i2cn_rxdata_sm test_h I2C0 ?s = Some (Inr s')
         \<and> take_bit 8 (drop_bit 8 (mem s' 0)) = 0xFF" by blast
qed

lemma unat_of_nat_small:
  assumes "k \<le> 4"
  shows "unat (of_nat k :: u32) = k"
proof -
  from assms consider "k = 0" | "k = 1" | "k = 2" | "k = 3" | "k = 4" by linarith
  then show ?thesis by cases simp_all
qed

text \<open>
  Claim C5, amended. A transaction enters \<open>data_rx\<close> with \<open>k\<close> bytes expected, \<open>k\<close>
  from 1 to 4. After \<open>j\<close> byte-received events the count is \<open>k - j\<close> (0 from the
  \<open>k\<close>-th event on), the state is \<open>data_rx\<close> before the \<open>k\<close>-th event and \<open>m_stop\<close>
  from it on, and the actions are those of \<open>rx_trace\<close>. The event that finds the count
  at 1 takes it to 0, writes the NACK command and then the STOP command, and leaves the
  state \<open>m_stop\<close>.
\<close>

theorem bytes_remaining_counts_down_to_zero:
  assumes st: "curr_state (get_sm n s) = data_rx" and nb: "num_bytes (get_sm n s) = of_nat k"
    and k: "1 \<le> k" "k \<le> 4" and sh: "MSBYTE_SHIFT h = 8"
  shows "(\<exists>s'. run_n j (i2cn_rxdata_sm h n) s = Some (Inr s')
       \<and> unat (num_bytes (get_sm n s')) = k - j
       \<and> curr_state (get_sm n s') = (if j < k then data_rx else m_stop)
       \<and> trace s' = trace s @ rx_trace (I2Cn (get_sm n s)) (I2C_80MS_DELAY h) k j)
   \<and> (\<exists>s0 s1. run_n (k - 1) (i2cn_rxdata_sm h n) s = Some (Inr s0)
       \<and> num_bytes (get_sm n s0) = 1 \<and> curr_state (get_sm n s0) = data_rx
       \<and> i2cn_rxdata_sm h n s0 = Some (Inr s1)
       \<and> num_bytes (get_sm n s1) = 0 \<and> curr_state (get_sm n s1) = m_stop
       \<and> trace s1 = trace s0 @ [Write_CMD (I2Cn (get_sm n s)) I2C_CMD_NACK,
            Write_CMD (I2Cn (get_sm n s)) I2C_CMD_STOP, Timer_delay (I2C_80MS_DELAY h)])"
proof
  from k st have st': "curr_state (get_sm n s) = (if k = 0 then m_stop else data_rx)" by simp
  from rx_run [OF sh k(2) nb st', of j] obtain s' where
    "run_n j (i2cn_rxdata_sm h n) s = Some (Inr s')"
    "get_sm n s' = (get_sm n s)\<lparr>num_bytes := of_nat (k - j),
            curr_state := (if k \<le> j then m_stop else data_rx)\<rparr>"
    "trace s' = trace s @ rx_trace (I2Cn (get_sm n s)) (I2C_80MS_DELAY h) k j"
    by blast
  moreover have "unat (of_nat (k - j) :: u32) = k - j"
    using k(2) by (intro unat_of_nat_small) simp
  ultimately show "\<exists>s'. run_n j (i2cn_rxdata_sm h n) s = Some (Inr s')
       \<and> unat (num_bytes (get_sm n s')) = k - j
       \<and> curr_state (get_sm n s') = (if j < k then data_rx else m_stop)
       \<and> trace s' = trace s @ rx_trace (I2Cn (get_sm n s)) (I2C_80MS_DELAY h) k j"
    by auto
next
  from k st have st': "curr_state (get_sm n s) = (if k = 0 then m_stop else data_rx)" by simp
  from rx_run [OF sh k(2) nb st', of "k - 1"] obtain s0 where
    r0: "run_n (k - 1) (i2cn_rxdata_sm h n) s = Some (Inr s0)"
    and d0: "get_sm n s0 = (get_sm n s)\<lparr>num_bytes := of_nat (k - (k - 1)),
            curr_state := (if k \<le> k - 1 then m_stop else data_rx)\<rparr>"
    by blast
  from d0 k have n0: "num_bytes (get_sm n s0) = 1" and c0: "curr_state (get_sm n s0) = data_rx"
    and i0: "I2Cn (get_sm n s0) = I2Cn (get_sm n s)"
    by auto
  from rxdata_step [OF c0 n0 _ _ sh] i0 obtain s1 where
    "i2cn_rxdata_sm h n s0 = Some (Inr s1)"
    "num_bytes (get_sm n s1) = 0" "curr_state (get_sm n s1) = m_stop"
    "trace s1 = trace s0 @ [Write_CMD (I2Cn (get_sm n s)) I2C_CMD_NACK,
            Write_CMD (I2Cn (get_sm n s)) I2C_CMD_STOP, Timer_delay (I2C_80MS_DELAY h)]"
    by auto
  with r0 n0 c0 show "\<exists>s0 s1. run_n (k - 1) (i2cn_rxdata_sm h n) s = Some (Inr s0)
       \<and> num_bytes (get_sm n s0) = 1 \<and> curr_state (get_sm n s0) = data_rx
       \<and> i2cn_rxdata_sm h n s0 = Some (Inr s1)
       \<and> num_bytes (get_sm n s1) = 0 \<and> curr_state (get_sm n s1) = m_stop
       \<and> trace s1 = trace s0 @ [Write_CMD (I2Cn (get_sm n s)) I2C_CMD_NACK,
            Write_CMD (I2Cn (get_sm n s)) I2C_CMD_STOP, Timer_delay (I2C_80MS_DELAY h)]"
    by blast
qed

theorem bytes_remaining_counts_down_to_zero_witness:
  "\<exists>s'. run_n 3 (i2cn_rxdata_sm test_h I2C0)
           (test_sys (test_sm I2C0 data_rx 2 True) [] [0xAB, 0x12]) = Some (Inr s')
     \<and> num_bytes (get_sm I2C0 s') = 0 \<and> curr_state (get_sm I2C0 s') = m_stop
     \<and> trace s' = [Write_CMD I2C0 I2C_CMD_ACK, Timer_delay 80,
          Write_CMD I2C0 I2C_CMD_NACK, Write_CMD I2C0 I2C_CMD_STOP, Timer_delay 80,
          Timer_delay 80]"
proof -
  let ?s = "test_sys (test_sm I2C0 data_rx 2 True) [] [0xAB, 0x12]"
  have "curr_state (get_sm I2C0 ?s) = data_rx" "num_bytes (get_sm I2C0 ?s) = of_nat 2"
    "1 \<le> (2::nat)" "(2::nat) \<le> 4" "MSBYTE_SHIFT test_h = 8"
    by (simp_all add: test_sm_def test_h_def)
  from bytes_remaining_counts_down_to_zero [OF this, of 3] show ?thesis
    by (auto simp: test_sm_def test_h_def eval_nat_numeral unat_eq_0)
qed

text \<open>
  Claim C5 as stated fails for a transaction that enters \<open>data_rx\<close> with no byte
  expected: the decrement wraps to \<open>0xFFFFFFFF\<close>, and the shift by eight times that many
  bits is undefined; no NACK and no STOP is written.
\<close>

theorem zero_bytes_remaining_counterexample:
  "num_bytes (test_sm I2C0 data_rx 0 True) - 1 = 0xFFFFFFFF
   \<and> i2cn_rxdata_sm test_h I2C0 (test_sys (test_sm I2C0 data_rx 0 True) [] [0xAB])
       = Some (Inl UndefinedShift)"
  by (simp add: i2cn_rxdata_sm_def prim_defs shl32_def Let_def test_sm_def test_h_def)

text \<open>
  Claim C10, amended. A run of the \<open>k\<close> byte-received events of a transaction whose payload
  fits the destination word (\<open>k\<close> up to 4) returns, and the destination then holds its
  contents at the start OR the payload assembled most significant byte first; the rest
  of the memory is as it was. No bit set at the start is cleared, neither at the end nor
  after any number \<open>j\<close> of the \<open>k\<close> events, when the destination holds its contents at the
  start OR the bytes received so far, each at its place. A destination zero at the start
  ends as the payload, and the destination ends as the payload exactly when it had no bit
  set outside the payload at the start.
\<close>

theorem destination_accumulates_payload:
  assumes st: "curr_state (get_sm n s) = data_rx" and nb: "num_bytes (get_sm n s) = of_nat k"
    and k: "k \<le> 4" and sh: "MSBYTE_SHIFT h = 8" and j: "j \<le> k"
  shows "(\<exists>s'. run_n k (i2cn_rxdata_sm h n) s = Some (Inr s')
       \<and> mem s' (data (get_sm n s)) =
           mem s (data (get_sm n s)) OR assemble (rx_bytes (rxdata (get_sm n s)) k s)
       \<and> (\<forall>a. a \<noteq> data (get_sm n s) \<longrightarrow> mem s' a = mem s a)
       \<and> mem s (data (get_sm n s)) AND mem s' (data (get_sm n s)) = mem s (data (get_sm n s))
       \<and> (mem s (data (get_sm n s)) = 0 \<longrightarrow>
            mem s' (data (get_sm n s)) = assemble (rx_bytes (rxdata (get_sm n s)) k s))
       \<and> (mem s' (data (get_sm n s)) = assemble (rx_bytes (rxdata (get_sm n s)) k s))
           = (mem s (data (get_sm n s)) AND NOT (assemble (rx_bytes (rxdata (get_sm n s)) k s)) = 0))
   \<and> (\<exists>sj. run_n j (i2cn_rxdata_sm h n) s = Some (Inr sj)
       \<and> mem sj (data (get_sm n s)) = mem s (data (get_sm n s))
            OR placed k (rx_bytes (rxdata (get_sm n s)) (min j k) s)
       \<and> mem s (data (get_sm n s)) AND mem sj (data (get_sm n s)) = mem s (data (get_sm n s)))"
proof
  show "\<exists>s'. run_n k (i2cn_rxdata_sm h n) s = Some (Inr s')
       \<and> mem s' (data (get_sm n s)) =
           mem s (data (get_sm n s)) OR assemble (rx_bytes (rxdata (get_sm n s)) k s)
       \<and> (\<forall>a. a \<noteq> data (get_sm n s) \<longrightarrow> mem s' a = mem s a)
       \<and> mem s (data (get_sm n s)) AND mem s' (data (get_sm n s)) = mem s (data (get_sm n s))
       \<and> (mem s (data (get_sm n s)) = 0 \<longrightarrow>
            mem s' (data (get_sm n s)) = assemble (rx_bytes (rxdata (get_sm n s)) k s))
       \<and> (mem s' (data (get_sm n s)) = assemble (rx_bytes (rxdata (get_sm n s)) k s))
           = (mem s (data (get_sm n s)) AND NOT (assemble (rx_bytes (rxdata (get_sm n s)) k s)) = 0)"
  proof (cases "k = 0")
    case True
    then show ?thesis by (simp add: rx_bytes_def assemble_def)
  next
    case False
    with st have st': "curr_state (get_sm n s) = (if k = 0 then m_stop else data_rx)" by simp
    have len: "length (rx_bytes (rxdata (get_sm n s)) k s) = k" by (simp add: rx_bytes_def)
    from rx_run [OF sh k nb st', of k] obtain s' where
      r: "run_n k (i2cn_rxdata_sm h n) s = Some (Inr s')"
      and m: "mem s' = (mem s)(data (get_sm n s) := mem s (data (get_sm n s))
              OR placed k (rx_bytes (rxdata (get_sm n s)) (min k k) s))"
      by blast
    from m placed_assemble [of "rx_bytes (rxdata (get_sm n s)) k s"] len
    have "mem s' (data (get_sm n s)) =
           mem s (data (get_sm n s)) OR assemble (rx_bytes (rxdata (get_sm n s)) k s)"
      by simp
    moreover from m have "\<forall>a. a \<noteq> data (get_sm n s) \<longrightarrow> mem s' a = mem s a" by simp
    ultimately show ?thesis using r by (auto simp: and_or_self or_eq_iff [symmetric])
  qed
next
  show "\<exists>sj. run_n j (i2cn_rxdata_sm h n) s = Some (Inr sj)
       \<and> mem sj (data (get_sm n s)) = mem s (data (get_sm n s))
            OR placed k (rx_bytes (rxdata (get_sm n s)) (min j k) s)
       \<and> mem s (data (get_sm n s)) AND mem sj (data (get_sm n s)) = mem s (data (get_sm n s))"
  proof (cases "k = 0")
    case True
    with j show ?thesis by (simp add: rx_bytes_def)
  next
    case False
    with st have st': "curr_state (get_sm n s) = (if k = 0 then m_stop else data_rx)" by simp
    from rx_run [OF sh k nb st', of j] obtain sj where
      r: "run_n j (i2cn_rxdata_sm h n) s = Some (Inr sj)"
      and m: "mem sj = (mem s)(data (get_sm n s) := mem s (data (get_sm n s))
              OR placed k (rx_bytes (rxdata (get_sm n s)) (min j k) s))"
      by blast
    from r m show ?thesis by (auto simp: and_or_self)
  qed
qed

theorem destination_accumulates_payload_witness:
  "(\<exists>s'. run_n 2 (i2cn_rxdata_sm test_h I2C0)
           (test_sys (test_sm I2C0 data_rx 2 True) [] [0xAB, 0x12]) = Some (Inr s')
       \<and> mem s' 0 = 0xAB12)
   \<and> (\<exists>s'. run_n 2 (i2cn_rxdata_sm test_h I2C0)
           ((test_sys (test_sm I2C0 data_rx 2 True) [] [0xAB, 0x12])\<lparr>mem := (\<lambda>_. 0xFF00)\<rparr>)
             = Some (Inr s')
       \<and> mem s' 0 = 0xFF12)
   \<and> (\<exists>s'. run_n 1 (i2cn_rxdata_sm test_h I2C0)
           ((test_sys (test_sm I2C0 data_rx 2 True) [] [0xAB, 0x12])\<lparr>mem := (\<lambda>_. 0xFF00)\<rparr>)
             = Some (Inr s')
       \<and> mem s' 0 = 0xFF00)"
proof (intro conjI)
  let ?s = "test_sys (test_sm I2C0 data_rx 2 True) [] [0xAB, 0x12]"
  have "curr_state (get_sm I2C0 ?s) = data_rx" "num_bytes (get_sm I2C0 ?s) = of_nat 2"
    "(2::nat) \<le> 4" "MSBYTE_SHIFT test_h = 8" "(2::nat) \<le> 2"
    by (simp_all add: test_sm_def test_h_def)
  from destination_accumulates_payload [OF this, THEN conjunct1] show
    "\<exists>s'. run_n 2 (i2cn_rxdata_sm test_h I2C0) ?s = Some (Inr s') \<and> mem s' 0 = 0xAB12"
    by (auto simp: test_defs rx_bytes_def assemble_def get_sm_def eval_nat_numeral)
next
  let ?s = "(test_sys (test_sm I2C0 data_rx 2 True) [] [0xAB, 0x12])\<lparr>mem := (\<lambda>_. 0xFF00)\<rparr>"
  have "curr_state (get_sm I2C0 ?s) = data_rx" "num_bytes (get_sm I2C0 ?s) = of_nat 2"
    "(2::nat) \<le> 4" "MSBYTE_SHIFT test_h = 8" "(2::nat) \<le> 2"
    by (simp_all add: test_sm_def test_h_def)
  from destination_accumulates_payload [OF this, THEN conjunct1] show
    "\<exists>s'. run_n 2 (i2cn_rxdata_sm test_h I2C0) ?s = Some (Inr s') \<and> mem s' 0 = 0xFF12"
    by (auto simp: test_defs rx_bytes_def assemble_def get_sm_def eval_nat_numeral)
next
  let ?s = "(test_sys (test_sm I2C0 data_rx 2 True) [] [0xAB, 0x12])\<lparr>mem := (\<lambda>_. 0xFF00)\<rparr>"
  have "curr_state (get_sm I2C0 ?s) = data_rx" "num_bytes (get_sm I2C0 ?s) = of_nat 2"
    "(2::nat) \<le> 4" "MSBYTE_SHIFT test_h = 8" "(1::nat) \<le> 2"
    by (simp_all add: test_sm_def test_h_def)
  from destination_accumulates_payload [OF this, THEN conjunct2] show
    "\<exists>s'. run_n 1 (i2cn_rxdata_sm test_h I2C0) ?s = Some (Inr s') \<and> mem s' 0 = 0xFF00"
    by (auto simp: test_defs rx_bytes_def get_sm_def eval_nat_numeral)
qed

text \<open>
  Claim C10 as stated fails in two ways. A transaction of five bytes does not end with the
  payload ORed into the destination: its first byte-received event shifts by 32 bits,
  which is undefined on the 32-bit operand. And the payload alone is obtained without a
  zeroed destination: one that holds 2 at the start of the two-byte transaction
  \<open>0xAB\<close>, \<open>0x12\<close> ends as \<open>0xAB12\<close>, the payload.
\<close>

theorem five_byte_payload_counterexample:
  "run_n 5 (i2cn_rxdata_sm test_h I2C0)
       (test_sys (test_sm I2C0 data_rx 5 True) [] [0xAB, 0x12, 0x34, 0x56, 0x78])
     = Some (Inl UndefinedShift)
   \<and> (\<exists>s'. run_n 2 (i2cn_rxdata_sm test_h I2C0)
           ((test_sys (test_sm I2C0 data_rx 2 True) [] [0xAB, 0x12])\<lparr>mem := (\<lambda>_. 0x0002)\<rparr>)
             = Some (Inr s')
         \<and> mem s' 0 = 0xAB12 \<and> mem s' 0 = assemble [0xAB, 0x12])"
proof
  have five: "(5::nat) = Suc 4" by simp
  have "i2cn_rxdata_sm test_h I2C0
       (test_sys (test_sm I2C0 data_rx 5 True) [] [0xAB, 0x12, 0x34, 0x56, 0x78])
     = Some (Inl UndefinedShift)"
    by (simp add: i2cn_rxdata_sm_def prim_defs shl32_def Let_def test_sm_def test_h_def)
  then show "run_n 5 (i2cn_rxdata_sm test_h I2C0)
       (test_sys (test_sm I2C0 data_rx 5 True) [] [0xAB, 0x12, 0x34, 0x56, 0x78])
     = Some (Inl UndefinedShift)"
    by (simp only: five run_n.simps andThen_simps)
next
  let ?s = "(test_sys (test_sm I2C0 data_rx 2 True) [] [0xAB, 0x12])\<lparr>mem := (\<lambda>_. 0x0002)\<rparr>"
  have st: "curr_state (get_sm I2C0 ?s) = (if (2::nat) = 0 then m_stop else data_rx)"
    and nb: "num_bytes (get_sm I2C0 ?s) = of_nat 2"
    and k: "(2::nat) \<le> 4" and sh: "MSBYTE_SHIFT test_h = 8"
    by (simp_all add: test_sm_def test_h_def)
  from rx_run [OF sh k nb st, of 2] obtain s' where
    r: "run_n 2 (i2cn_rxdata_sm test_h I2C0) ?s = Some (Inr s')"
    and m: "mem s' = (mem ?s)(data (get_sm I2C0 ?s) := mem ?s (data (get_sm I2C0 ?s))
            OR placed 2 (rx_bytes (rxdata (get_sm I2C0 ?s)) (min 2 2) ?s))"
    by blast
  from m have "mem s' 0 = 0xAB12"
    by (simp add: test_defs rx_bytes_def get_sm_def eval_nat_numeral)
  moreover have "assemble [0xAB, 0x12] = (0xAB12::u32)" by (simp add: assemble_def)
  ultimately show "\<exists>s'. run_n 2 (i2cn_rxdata_sm test_h I2C0) ?s = Some (Inr s')
         \<and> mem s' 0 = 0xAB12 \<and> mem s' 0 = assemble [0xAB, 0x12]"
    using r by simp
qed

section \<open>The interrupt vector on a single flag\<close>

lemma irq_ack_only:
  "peek_IF n s AND IEN (periph s n) = I2C_IF_ACK \<Longrightarrow>
     I2Cn_IRQHandler h n s = i2cn_ack_sm h n (write_IFC n I2C_IF_ACK (next_IF n s))"
  by (simp add: I2Cn_IRQHandler_def Let_def hw_defs)

lemma irq_rxdatav_only:
  "peek_IF n s AND IEN (periph s n) = I2C_IF_RXDATAV \<Longrightarrow>
     I2Cn_IRQHandler h n s = i2cn_rxdata_sm h n (write_IFC n I2C_IF_RXDATAV (next_IF n s))"
  by (simp add: I2Cn_IRQHandler_def Let_def hw_defs)

lemma flag_enabled: "e AND f = f \<Longrightarrow> r = f \<Longrightarrow> r AND e = (f::u32)"
  by (simp add: and.commute)

text \<open>
  Claim C6, amended. The live descriptor is in \<open>req_res\<close> with two bytes expected and a
  destination word that holds 0; the peripheral raises ACK, ACK, ACK, byte received
  (\<open>0xAB\<close>), byte received (\<open>0x12\<close>), stop detected, one flag at a time, each enabled
  in \<open>IEN\<close>, and raises the stop flag again during the bus reset. Then the six runs of
  the vector return, the destination holds \<open>0xAB12\<close>, the descriptor is not busy, and
  the actions of the run hold one callback handed to the scheduler and one release of
  the energy mode.
\<close>

theorem read_transaction_scenario:
  assumes d: "curr_state (get_sm n s) = req_res" "num_bytes (get_sm n s) = 2"
      "I2Cn (get_sm n s) = n" "rxdata (get_sm n s) = n"
    and buf: "mem s (data (get_sm n s)) = 0"
    and hdr: "MSBYTE_SHIFT h = 8" "unat (I2C_ADDR_RW_SHIFT h) < 32"
    and ien: "IEN (periph s n) AND I2C_IF_ACK = I2C_IF_ACK"
      "IEN (periph s n) AND I2C_IF_RXDATAV = I2C_IF_RXDATAV"
      "IEN (periph s n) AND I2C_IF_MSTOP = I2C_IF_MSTOP"
    and ifs: "\<forall>i<6. IF_reads (periph s n) (IF_count (periph s n) + i) =
        [I2C_IF_ACK, I2C_IF_ACK, I2C_IF_ACK, I2C_IF_RXDATAV, I2C_IF_RXDATAV, I2C_IF_MSTOP] ! i"
    and stop: "IF_reads (periph s n) (IF_count (periph s n) + 7 + k) AND I2C_IF_MSTOP \<noteq> 0"
    and rx: "RXDATA_reads (periph s n) (RXDATA_count (periph s n)) = 0xAB"
      "RXDATA_reads (periph s n) (Suc (RXDATA_count (periph s n))) = 0x12"
  shows "\<exists>s'. run_n 6 (I2Cn_IRQHandler h n) s = Some (Inr s')
     \<and> mem s' (data (get_sm n s)) = 0xAB12
     \<and> \<not> busy (get_sm n s') \<and> curr_state (get_sm n s') = m_stop
     \<and> filter is_scheduled (drop (length (trace s)) (trace s'))
          = [Add_scheduled_event (i2c_cb (get_sm n s))]
     \<and> filter is_release (drop (length (trace s)) (trace s'))
          = [Sleep_unblock_mode (I2C_EM_BLOCK h)]"
proof -
  let ?d = "get_sm n s" and ?c = "IF_count (periph s n)" and ?r = "RXDATA_count (periph s n)"
  let ?D = "Timer_delay (I2C_80MS_DELAY h)"
  let ?hdr = "push_bit (unat (I2C_ADDR_RW_SHIFT h)) (slave_addr ?d) OR SI7021_I2C_READ h"
  have f:
    "IF_reads (periph s n) ?c = I2C_IF_ACK" "IF_reads (periph s n) (Suc ?c) = I2C_IF_ACK"
    "IF_reads (periph s n) (Suc (Suc ?c)) = I2C_IF_ACK"
    "IF_reads (periph s n) (Suc (Suc (Suc ?c))) = I2C_IF_RXDATAV"
    "IF_reads (periph s n) (Suc (Suc (Suc (Suc ?c)))) = I2C_IF_RXDATAV"
    "IF_reads (periph s n) (Suc (Suc (Suc (Suc (Suc ?c))))) = I2C_IF_MSTOP"
    using ifs [rule_format, of 0] ifs [rule_format, of 1] ifs [rule_format, of 2]
      ifs [rule_format, of 3] ifs [rule_format, of 4] ifs [rule_format, of 5]
    by (simp_all add: eval_nat_numeral)
  txt \<open>First ACK: the measure command goes out.\<close>
  let ?s1 = "(put_sm n (?d\<lparr>curr_state := command_tx\<rparr>) s)\<lparr>
      periph := (periph s)(n := (periph s n)\<lparr>IF_count := Suc ?c\<rparr>),
      trace := trace s @ [Write_IFC n I2C_IF_ACK, Write_TXDATA (txdata ?d) (measure_RH_NHMM h), ?D]\<rparr>"
  have s1: "I2Cn_IRQHandler h n s = Some (Inr ?s1)"
    using d(1) flag_enabled [OF ien(1) f(1)]
    by (cases n) (simp_all add: irq_ack_only peek_IF_def ack_req_res prim_defs put_sm_def get_sm_def)
  txt \<open>Second ACK: repeated start and the read header.\<close>
  let ?t2 = "[Write_IFC n I2C_IF_ACK, Write_TXDATA (txdata ?d) (measure_RH_NHMM h), ?D,
      Write_IFC n I2C_IF_ACK, Write_CMD n I2C_CMD_START, Write_TXDATA (txdata ?d) ?hdr, ?D]"
  let ?s2 = "(put_sm n (?d\<lparr>curr_state := data_req\<rparr>) s)\<lparr>
      periph := (periph s)(n := (periph s n)\<lparr>IF_count := Suc (Suc ?c)\<rparr>),
      trace := trace s @ ?t2\<rparr>"
  have s2: "I2Cn_IRQHandler h n ?s1 = Some (Inr ?s2)"
    using d(3) hdr(2) flag_enabled [OF ien(1) f(2)]
    by (cases n) (simp_all add: irq_ack_only peek_IF_def ack_command_tx prim_defs put_sm_def get_sm_def)
  txt \<open>Third ACK: the slave has taken the read header.\<close>
  let ?t3 = "?t2 @ [Write_IFC n I2C_IF_ACK, ?D]"
  let ?s3 = "(put_sm n (?d\<lparr>curr_state := data_rx\<rparr>) s)\<lparr>
      periph := (periph s)(n := (periph s n)\<lparr>IF_count := Suc (Suc (Suc ?c))\<rparr>),
      trace := trace s @ ?t3\<rparr>"
  have s3: "I2Cn_IRQHandler h n ?s2 = Some (Inr ?s3)"
    using flag_enabled [OF ien(1) f(3)]
    by (cases n) (simp_all add: irq_ack_only peek_IF_def ack_data_req prim_defs put_sm_def get_sm_def)
  txt \<open>First byte.\<close>
  let ?t4 = "?t3 @ [Write_IFC n I2C_IF_RXDATAV, Write_CMD n I2C_CMD_ACK, ?D]"
  let ?s4 = "(put_sm n (?d\<lparr>curr_state := data_rx, num_bytes := 1\<rparr>) s)\<lparr>
      periph := (periph s)(n := (periph s n)\<lparr>IF_count := Suc (Suc (Suc (Suc ?c))),
         RXDATA_count := Suc ?r\<rparr>),
      mem := (mem s)(data ?d := 0xAB00),
      trace := trace s @ ?t4\<rparr>"
  have s4: "I2Cn_IRQHandler h n ?s3 = Some (Inr ?s4)"
    using d(2,3,4) buf hdr(1) rx(1) flag_enabled [OF ien(2) f(4)]
    by (cases n; cases "primask s")
       (simp_all add: irq_rxdatav_only peek_IF_def i2cn_rxdata_sm_def shl32_def peek_RXDATA_def
          Let_def prim_defs put_sm_def get_sm_def)
  txt \<open>Second and last byte.\<close>
  let ?t5 = "?t4 @ [Write_IFC n I2C_IF_RXDATAV, Write_CMD n I2C_CMD_NACK, Write_CMD n I2C_CMD_STOP, ?D]"
  let ?s5 = "(put_sm n (?d\<lparr>curr_state := m_stop, num_bytes := 0\<rparr>) s)\<lparr>
      periph := (periph s)(n := (periph s n)\<lparr>IF_count := Suc (Suc (Suc (Suc (Suc ?c)))),
         RXDATA_count := Suc (Suc ?r)\<rparr>),
      mem := (mem s)(data ?d := 0xAB12),
      trace := trace s @ ?t5\<rparr>"
  have s5: "I2Cn_IRQHandler h n ?s4 = Some (Inr ?s5)"
    using d(3,4) hdr(1) rx(2) flag_enabled [OF ien(2) f(5)]
    by (cases n; cases "primask s")
       (simp_all add: irq_rxdatav_only peek_IF_def i2cn_rxdata_sm_def shl32_def peek_RXDATA_def
          Let_def prim_defs put_sm_def get_sm_def)
  txt \<open>Stop detected: the completion path.\<close>
  let ?u = "write_IFC n I2C_IF_MSTOP (next_IF n ?s5)"
  have irq6: "I2Cn_IRQHandler h n ?s5 = i2cn_mstop_sm h n ?u"
    using flag_enabled [OF ien(3) f(6)]
    by (intro irq_mstop_only) (simp add: peek_IF_def)
  have du: "get_sm n ?u = ?d\<lparr>curr_state := m_stop, num_bytes := 0\<rparr>"
    by (simp add: prim_defs)
  have "\<exists>s'. i2cn_mstop_sm h n ?u = Some (Inr s')"
    using stop d(3)
    by (intro mstop_returns [where k = k]) (simp_all add: prim_defs eval_nat_numeral)
  then obtain s6 where r6: "i2cn_mstop_sm h n ?u = Some (Inr s6)" by blast
  from mstop_effect [OF r6] obtain c6 where s6:
    "s6 = (put_sm n ((get_sm n ?u)\<lparr>busy := False\<rparr>) ?u)\<lparr>
           periph := (periph ?u)(I2Cn (get_sm n ?u) := (periph ?u (I2Cn (get_sm n ?u)))\<lparr>IF_count := c6\<rparr>),
           trace := trace ?u @ [Sleep_unblock_mode (I2C_EM_BLOCK h),
               Add_scheduled_event (i2c_cb (get_sm n ?u))]
             @ reset_writes (I2Cn (get_sm n ?u)) (IFC_read (periph ?u (I2Cn (get_sm n ?u))))
                 (IEN (periph ?u (I2Cn (get_sm n ?u))))
             @ [Timer_delay (I2C_80MS_DELAY h)]\<rparr>"
    by blast
  have six: "(6::nat) = Suc (Suc (Suc (Suc (Suc (Suc 0)))))" by simp
  have run: "run_n 6 (I2Cn_IRQHandler h n) s = Some (Inr s6)"
    unfolding six by (simp only: run_n.simps andThen_simps s1 s2 s3 s4 s5 irq6 r6)
  have "mem s6 (data ?d) = 0xAB12" unfolding s6 by (simp add: prim_defs)
  moreover have "\<not> busy (get_sm n s6)" "curr_state (get_sm n s6) = m_stop"
    unfolding s6 du by simp_all
  moreover have "filter is_scheduled (drop (length (trace s)) (trace s6))
          = [Add_scheduled_event (i2c_cb ?d)]"
    unfolding s6 du by (simp add: prim_defs reset_writes_def)
  moreover have "filter is_release (drop (length (trace s)) (trace s6))
          = [Sleep_unblock_mode (I2C_EM_BLOCK h)]"
    unfolding s6 du by (simp add: prim_defs reset_writes_def)
  ultimately show ?thesis using run by blast
qed

theorem read_transaction_scenario_witness:
  "\<exists>s'. run_n 6 (I2C0_IRQHandler test_h)
          (test_sys (test_sm I2C0 req_res 2 True) [0x40, 0x40, 0x40, 0x20, 0x20, 0x100, 0x10]
             [0xAB, 0x12]) = Some (Inr s')
     \<and> mem s' 0 = 0xAB12 \<and> \<not> busy (i2c0_sm s')
     \<and> filter is_scheduled (trace s') = [Add_scheduled_event 8]
     \<and> filter is_release (trace s') = [Sleep_unblock_mode 2]"
proof -
  let ?s = "test_sys (test_sm I2C0 req_res 2 True) [0x40, 0x40, 0x40, 0x20, 0x20, 0x100, 0x10]
             [0xAB, 0x12]"
  have ifs: "\<forall>i<6. IF_reads (periph ?s I2C0) (IF_count (periph ?s I2C0) + i) =
        [I2C_IF_ACK, I2C_IF_ACK, I2C_IF_ACK, I2C_IF_RXDATAV, I2C_IF_RXDATAV, I2C_IF_MSTOP] ! i"
  proof (intro allI impI)
    fix i :: nat
    assume "i < 6"
    then consider "i = 0" | "i = 1" | "i = 2" | "i = 3" | "i = 4" | "i = 5" by linarith
    then show "IF_reads (periph ?s I2C0) (IF_count (periph ?s I2C0) + i) =
        [I2C_IF_ACK, I2C_IF_ACK, I2C_IF_ACK, I2C_IF_RXDATAV, I2C_IF_RXDATAV, I2C_IF_MSTOP] ! i"
      by cases (simp_all add: test_periph_def seq_of_def hw_defs)
  qed
  have "curr_state (get_sm I2C0 ?s) = req_res" "num_bytes (get_sm I2C0 ?s) = 2"
      "I2Cn (get_sm I2C0 ?s) = I2C0" "rxdata (get_sm I2C0 ?s) = I2C0"
      "mem ?s (data (get_sm I2C0 ?s)) = 0"
      "MSBYTE_SHIFT test_h = 8" "unat (I2C_ADDR_RW_SHIFT test_h) < 32"
      "IEN (periph ?s I2C0) AND I2C_IF_ACK = I2C_IF_ACK"
      "IEN (periph ?s I2C0) AND I2C_IF_RXDATAV = I2C_IF_RXDATAV"
      "IEN (periph ?s I2C0) AND I2C_IF_MSTOP = I2C_IF_MSTOP"
      "\<forall>i<6. IF_reads (periph ?s I2C0) (IF_count (periph ?s I2C0) + i) =
        [I2C_IF_ACK, I2C_IF_ACK, I2C_IF_ACK, I2C_IF_RXDATAV, I2C_IF_RXDATAV, I2C_IF_MSTOP] ! i"
      "IF_reads (periph ?s I2C0) (IF_count (periph ?s I2C0) + 7 + 0) AND I2C_IF_MSTOP \<noteq> 0"
      "RXDATA_reads (periph ?s I2C0) (RXDATA_count (periph ?s I2C0)) = 0xAB"
      "RXDATA_reads (periph ?s I2C0) (Suc (RXDATA_count (periph ?s I2C0))) = 0x12"
    using ifs by (simp_all add: test_sm_def test_h_def test_periph_def seq_of_def hw_defs)
  from read_transaction_scenario [OF this] have
    "\<exists>s'. run_n 6 (I2Cn_IRQHandler test_h I2C0) ?s = Some (Inr s')
     \<and> mem s' 0 = 0xAB12 \<and> \<not> busy (get_sm I2C0 s')
     \<and> filter is_scheduled (trace s') = [Add_scheduled_event 8]
     \<and> filter is_release (trace s') = [Sleep_unblock_mode 2]"
    by (auto simp: test_sm_def test_h_def)
  moreover have "I2C0_IRQHandler test_h = I2Cn_IRQHandler test_h I2C0"
    by (rule ext) (simp add: I2C0_IRQHandler_def)
  ultimately show ?thesis by (simp add: get_sm_def)
qed

text \<open>
  Claim C6 as stated fails. After ACK, ACK the descriptor is in \<open>data_req\<close>; the two
  byte-received events find it there and do nothing, so the destination still holds 0 and
  the descriptor is still busy; the stop-detected event ends in the fatal assertion.
\<close>

theorem two_acks_scenario_counterexample:
  "(\<exists>s4. run_n 4 (I2C0_IRQHandler test_h)
          (test_sys (test_sm I2C0 req_res 2 True) [0x40, 0x40, 0x20, 0x20, 0x100] [0xAB, 0x12])
            = Some (Inr s4)
       \<and> curr_state (i2c0_sm s4) = data_req \<and> mem s4 0 = 0 \<and> busy (i2c0_sm s4))
   \<and> run_n 5 (I2C0_IRQHandler test_h)
          (test_sys (test_sm I2C0 req_res 2 True) [0x40, 0x40, 0x20, 0x20, 0x100] [0xAB, 0x12])
        = Some (Inl AssertFailed)"
proof -
  let ?s = "test_sys (test_sm I2C0 req_res 2 True) [0x40, 0x40, 0x20, 0x20, 0x100] [0xAB, 0x12]"
  let ?f = "I2C0_IRQHandler test_h"
  have eq: "?f = I2Cn_IRQHandler test_h I2C0"
    by (rule ext) (simp add: I2C0_IRQHandler_def)
  let ?D = "Timer_delay 80"
  let ?s1 = "(put_sm I2C0 (test_sm I2C0 command_tx 2 True) ?s)\<lparr>
      periph := (periph ?s)(I2C0 := (periph ?s I2C0)\<lparr>IF_count := Suc 0\<rparr>),
      trace := [Write_IFC I2C0 I2C_IF_ACK, Write_TXDATA I2C0 0xF5, ?D]\<rparr>"
  have s1: "?f ?s = Some (Inr ?s1)"
    unfolding eq
    by (subst irq_ack_only)
       (simp_all add: peek_IF_def ack_req_res prim_defs test_sm_def test_periph_def test_h_def
          seq_of_def hw_defs put_sm_def get_sm_def test_sys_def)
  let ?s2 = "(put_sm I2C0 (test_sm I2C0 data_req 2 True) ?s)\<lparr>
      periph := (periph ?s)(I2C0 := (periph ?s I2C0)\<lparr>IF_count := Suc (Suc 0)\<rparr>),
      trace := [Write_IFC I2C0 I2C_IF_ACK, Write_TXDATA I2C0 0xF5, ?D,
        Write_IFC I2C0 I2C_IF_ACK, Write_CMD I2C0 I2C_CMD_START, Write_TXDATA I2C0 0x81, ?D]\<rparr>"
  have s2: "?f ?s1 = Some (Inr ?s2)"
    unfolding eq
    by (subst irq_ack_only)
       (simp_all add: peek_IF_def ack_command_tx prim_defs test_sm_def test_periph_def test_h_def
          seq_of_def hw_defs put_sm_def get_sm_def test_sys_def)
  let ?s3 = "?s2\<lparr>periph := (periph ?s)(I2C0 := (periph ?s I2C0)\<lparr>IF_count := Suc (Suc (Suc 0))\<rparr>),
      trace := trace ?s2 @ [Write_IFC I2C0 I2C_IF_RXDATAV, ?D]\<rparr>"
  have s3: "?f ?s2 = Some (Inr ?s3)"
    unfolding eq
    by (subst irq_rxdatav_only)
       (simp_all add: peek_IF_def rxdata_idle prim_defs test_sm_def test_periph_def test_h_def
          seq_of_def hw_defs put_sm_def get_sm_def test_sys_def)
  let ?s4 = "?s2\<lparr>periph := (periph ?s)(I2C0 := (periph ?s I2C0)\<lparr>IF_count := Suc (Suc (Suc (Suc 0)))\<rparr>),
      trace := trace ?s2 @ [Write_IFC I2C0 I2C_IF_RXDATAV, ?D, Write_IFC I2C0 I2C_IF_RXDATAV, ?D]\<rparr>"
  have s4: "?f ?s3 = Some (Inr ?s4)"
    unfolding eq
    by (subst irq_rxdatav_only)
       (simp_all add: peek_IF_def rxdata_idle prim_defs test_sm_def test_periph_def test_h_def
          seq_of_def hw_defs put_sm_def get_sm_def test_sys_def)
  have s5: "?f ?s4 = Some (Inl AssertFailed)"
    unfolding eq
    by (subst irq_mstop_only)
       (simp_all add: peek_IF_def i2cn_mstop_sm_def prim_defs test_sm_def test_periph_def
          test_h_def seq_of_def hw_defs put_sm_def get_sm_def test_sys_def)
  have four: "(4::nat) = Suc (Suc (Suc (Suc 0)))" and five: "(5::nat) = Suc (Suc (Suc (Suc (Suc 0))))"
    by simp_all
  have r4: "run_n 4 ?f ?s = Some (Inr ?s4)"
    unfolding four by (simp only: run_n.simps andThen_simps s1 s2 s3 s4)
  have r5: "run_n 5 ?f ?s = Some (Inl AssertFailed)"
    unfolding five by (simp only: run_n.simps andThen_simps s1 s2 s3 s4 s5)
  have "curr_state (i2c0_sm ?s4) = data_req \<and> mem ?s4 0 = 0 \<and> busy (i2c0_sm ?s4)"
    by (simp add: put_sm_def test_sm_def test_sys_def)
  with r4 r5 show ?thesis by blast
qed

end
